theory Spec2Isabelle
  imports Main "HOL-Library.Sublist"
begin

section \<open>JavaScript string operations used by the editor\<close>

text \<open>
  Strings are lists of characters, a character being a code point below 256 (Latin-1);
  texts with other code points are outside the model. Of the characters that
  \<open>String.prototype.trim\<close> strips, these are the ones in that range: tab, line feed,
  vertical tab, form feed, carriage return, space and the no-break space.
  \<open>toLowerCase\<close> maps the capitals of that range, A to Z and the accented capitals
  \<open>0xC0\<close> to \<open>0xDE\<close> without the multiplication sign \<open>0xD7\<close>, to the letter 32
  places further on.
\<close>

definition is_space :: "char \<Rightarrow> bool" where
  "is_space c =
     (c \<in> set [CHR '' '', CHR 0x09, CHR 0x0A, CHR 0x0B, CHR 0x0C, CHR 0x0D, CHR 0xA0])"

definition trim :: "string \<Rightarrow> string" where
  "trim s = rev (dropWhile is_space (rev (dropWhile is_space s)))"

definition upper_chars :: string where
  "upper_chars =
     ''ABCDEFGHIJKLMNOPQRSTUVWXYZ'' @
     [CHR 0xC0, CHR 0xC1, CHR 0xC2, CHR 0xC3, CHR 0xC4, CHR 0xC5, CHR 0xC6, CHR 0xC7,
      CHR 0xC8, CHR 0xC9, CHR 0xCA, CHR 0xCB, CHR 0xCC, CHR 0xCD, CHR 0xCE, CHR 0xCF,
      CHR 0xD0, CHR 0xD1, CHR 0xD2, CHR 0xD3, CHR 0xD4, CHR 0xD5, CHR 0xD6,
      CHR 0xD8, CHR 0xD9, CHR 0xDA, CHR 0xDB, CHR 0xDC, CHR 0xDD, CHR 0xDE]"

definition lower_chars :: string where
  "lower_chars =
     ''abcdefghijklmnopqrstuvwxyz'' @
     [CHR 0xE0, CHR 0xE1, CHR 0xE2, CHR 0xE3, CHR 0xE4, CHR 0xE5, CHR 0xE6, CHR 0xE7,
      CHR 0xE8, CHR 0xE9, CHR 0xEA, CHR 0xEB, CHR 0xEC, CHR 0xED, CHR 0xEE, CHR 0xEF,
      CHR 0xF0, CHR 0xF1, CHR 0xF2, CHR 0xF3, CHR 0xF4, CHR 0xF5, CHR 0xF6,
      CHR 0xF8, CHR 0xF9, CHR 0xFA, CHR 0xFB, CHR 0xFC, CHR 0xFD, CHR 0xFE]"

definition lower_char :: "char \<Rightarrow> char" where
  "lower_char c = (case map_of (zip upper_chars lower_chars) c of Some d \<Rightarrow> d | None \<Rightarrow> c)"

definition toLowerCase :: "string \<Rightarrow> string" where
  "toLowerCase s = map lower_char s"

text \<open>\<open>s.startsWith(p)\<close>\<close>

definition startsWith :: "string \<Rightarrow> string \<Rightarrow> bool" where
  "startsWith s p = (take (length p) s = p)"

text \<open>\<open>s.includes(p)\<close>: \<open>p\<close> occurs in \<open>s\<close> as a contiguous run.\<close>

fun str_includes :: "string \<Rightarrow> string \<Rightarrow> bool" where
  "str_includes [] p = (p = [])"
| "str_includes (c # s) p = (startsWith (c # s) p \<or> str_includes s p)"

text \<open>\<open>s.substring(0, n)\<close>\<close>

definition substring0 :: "string \<Rightarrow> nat \<Rightarrow> string" where
  "substring0 s n = take n s"

section \<open>Table model shared by the table editor and the document viewer\<close>

text \<open>
  A cell as the components read and write it. The boolean gap indicators are only ever
  tested for truthiness, so an absent indicator is \<open>False\<close>; \<open>original_has_gap\<close>
  is compared with \<open>undefined\<close> and therefore optional, and so is \<open>was_gap\<close>, which
  the table editor writes together with it.
\<close>

record cell =
  cell_id :: string
  cell_text :: string
  has_gap :: bool
  is_pending :: bool
  is_missing :: bool
  is_null :: bool
  is_empty :: bool
  original_has_gap :: "bool option"
  was_gap :: "bool option"
  is_filled :: bool

record row =
  row_id :: string
  cells :: "cell list"

record table =
  table_id :: string
  table_name :: string
  column_headers :: "string list option"
  rows :: "row list"

section \<open>Gap classification (TableEditor.js)\<close>

definition pendingText :: "string \<Rightarrow> bool" where
  "pendingText t =
     (str_includes t ''(pending)'' \<or> str_includes t ''pending)'' \<or>
      str_includes t ''(pending'' \<or> t = ''pending'')"

definition nullText :: "string \<Rightarrow> bool" where
  "nullText t =
     (t = ''null'' \<or> t = ''none'' \<or> t = ''nil'' \<or> t = ''n/a'' \<or> t = ''na'' \<or> t = ''n.a.'')"

definition missingValues :: "string list" where
  "missingValues =
     [''missing'', ''not provided'', ''not available'', ''unavailable'',
      ''tbd'', ''to be determined'', ''t.b.d.'', ''tba'', ''to be announced'',
      ''unknown'', ''unk'', '''']"

definition missingText :: "string \<Rightarrow> bool" where
  "missingText t = (t = [] \<or> t \<in> set missingValues)"

text \<open>
  \<open>hasGap(cell)\<close>: the backend indicators first, then the text. The cells passed
  to it are elements of a row, so the guard against a missing cell never fires.
\<close>

definition hasGap :: "cell \<Rightarrow> bool" where
  "hasGap c =
     (let t = toLowerCase (trim (cell_text c)) in
      if has_gap c \<or> is_pending c \<or> is_missing c \<or> is_null c \<or> is_empty c then True
      else
        (let isPending = pendingText t;
             isNull = nullText t;
             isMissing = missingText t
         in isPending \<or> isNull \<or> isMissing))"

text \<open>Truthiness of an optional boolean.\<close>

definition truthy :: "bool option \<Rightarrow> bool" where
  "truthy b = (b = Some True)"

text \<open>\<open>isFilled(cell)\<close>: the cell had a gap and now holds valid content.\<close>

definition isFilled :: "cell \<Rightarrow> bool" where
  "isFilled c =
     (let hadGap = (truthy (original_has_gap c) \<or> truthy (was_gap c));
          hasValidContent = (cell_text c \<noteq> [] \<and> trim (cell_text c) \<noteq> [] \<and> \<not> hasGap c)
      in hadGap \<and> hasValidContent)"

text \<open>
  The body of \<open>handleCellChange\<close> on the addressed cell: the gap state is captured
  when \<open>original_has_gap\<close> is still undefined, then the text and every indicator are
  rewritten from the new value.
\<close>

definition changeCell :: "cell \<Rightarrow> string \<Rightarrow> cell" where
  "changeCell c newValue =
     (let c1 = (if original_has_gap c = None
                then c\<lparr>original_has_gap := Some (hasGap c), was_gap := Some (hasGap c)\<rparr>
                else c);
          c2 = c1\<lparr>cell_text := newValue\<rparr>;
          t = toLowerCase (trim newValue);
          pending = pendingText t;
          isNull = nullText t;
          missing = missingText t;
          empty = (t = []);
          gap = (pending \<or> isNull \<or> missing \<or> empty)
      in c2\<lparr>is_pending := pending, is_null := isNull, is_missing := missing,
             is_empty := empty, has_gap := gap,
             is_filled := (truthy (original_has_gap c1) \<and> \<not> gap \<and> length (trim newValue) > 0)\<rparr>)"

datatype js_error = TypeError

text \<open>
  \<open>handleCellChange(rowIdx, cellIdx, newValue)\<close> on the editor's table. A locked
  editor ignores the event; an index outside the table makes the property access on
  \<open>undefined\<close> throw.
\<close>

definition handleCellChange :: "bool \<Rightarrow> table \<Rightarrow> nat \<Rightarrow> nat \<Rightarrow> string \<Rightarrow> js_error + table" where
  "handleCellChange isLocked tableData rowIdx cellIdx newValue =
     (if isLocked then Inr tableData
      else if rowIdx \<ge> length (rows tableData) then Inl TypeError
      else
        (let r = rows tableData ! rowIdx in
         if cellIdx \<ge> length (cells r) then Inl TypeError
         else Inr (tableData\<lparr>rows := (rows tableData)
                [rowIdx := r\<lparr>cells := (cells r)[cellIdx := changeCell (cells r ! cellIdx) newValue]\<rparr>]\<rparr>)))"

text \<open>An edit session on one cell: the values typed into it, in order.\<close>

definition editSession :: "cell \<Rightarrow> string list \<Rightarrow> cell" where
  "editSession c vs = foldl changeCell c vs"

text \<open>The class the editor gives to a rendered cell.\<close>

definition cellClass :: "cell \<Rightarrow> string" where
  "cellClass c = (if isFilled c then ''cell-filled'' else if hasGap c then ''cell-gap'' else '''')"

text \<open>
  The rendered rows of the editor: for every row its class (\<open>header-row\<close> for row 0)
  and, for every cell, the cell's class.
\<close>

definition renderRows :: "table \<Rightarrow> (string \<times> string list) list" where
  "renderRows tableData =
     map (\<lambda>(rowIdx, r). (if rowIdx = 0 then ''header-row'' else '''', map cellClass (cells r)))
         (zip [0 ..< length (rows tableData)] (rows tableData))"

text \<open>A cell as the parser delivers it, before any edit.\<close>

definition blankCell :: cell where
  "blankCell = \<lparr>cell_id = ''cell_1_1'', cell_text = '''', has_gap = False, is_pending = False,
     is_missing = False, is_null = False, is_empty = False, original_has_gap = None,
     was_gap = None, is_filled = False\<rparr>"

text \<open>Two cells of a data row: one pending, one with a value.\<close>

definition pendingCell :: cell where
  "pendingCell = blankCell\<lparr>cell_text := ''(Pending)''\<rparr>"

definition plainCell :: cell where
  "plainCell = blankCell\<lparr>cell_text := ''CAT-000''\<rparr>"


section \<open>Review endpoint (backend/main.py, \<open>review_submission\<close>)\<close>

text \<open>
  The rows of the three tables the endpoint touches. Keys and versions are Python
  integers; time stamps are kept as the formatted strings the endpoint builds.
\<close>

record Submission =
  sub_id :: int
  sub_document_id :: int
  sub_status :: string
  reviewed_by :: "string option"
  reviewed_at :: "string option"
  review_notes :: "string option"
  document_xml :: string
  normalized_json :: string

record Document =
  doc_id :: int
  doc_status :: string
  is_locked :: bool
  file_path :: string

record ApprovedDocument =
  ad_id :: int
  document_id :: int
  section_id :: string
  version :: int
  xml_file_path :: string
  json_file_path :: string
  approved_by :: string
  approved_at :: string
  approval_notes :: "string option"

record database =
  submissions :: "Submission list"
  documents :: "Document list"
  approved_documents :: "ApprovedDocument list"

text \<open>The request body, \<open>schemas.SubmissionReview\<close>.\<close>

record SubmissionReview =
  rv_status :: string
  rv_review_notes :: "string option"
  rv_reviewed_by :: string

text \<open>The directory of generated artifacts: paths to file contents.\<close>

type_synonym filesystem = "string \<Rightarrow> string option"

text \<open>
  The structured data of a document is a Python value made of dictionaries, lists,
  strings, numbers, booleans and \<open>None\<close>; \<open>if value\<close> tests its truthiness.
\<close>

datatype json =
    JNull
  | JBool bool
  | JNumber int
  | JString string
  | JArray "json list"
  | JObject "(string \<times> json) list"

fun py_truthy :: "json \<Rightarrow> bool" where
  "py_truthy JNull = False"
| "py_truthy (JBool b) = b"
| "py_truthy (JNumber n) = (n \<noteq> 0)"
| "py_truthy (JString s) = (s \<noteq> [])"
| "py_truthy (JArray xs) = (xs \<noteq> [])"
| "py_truthy (JObject kvs) = (kvs \<noteq> [])"

text \<open>
  How a write to a new file ends: the file is written; \<open>open(path, "w")\<close> raises and
  no file is created; or the write raises after the file has been opened, which leaves
  the file on disk with whatever part had been written.
\<close>

datatype write_outcome = Written | OpenRaises | WriteRaises string

text \<open>
  What one request meets outside the database: the clock, the structured data that
  \<open>get_docx_for_editing\<close> reads back from the document (or its exception), the JSON
  library (\<open>json.loads\<close>, which may raise, and the text that \<open>json.dump\<close> with
  \<open>indent=2\<close> writes for a value), and which of the calls that can raise do raise:
  \<open>os.remove\<close>, the two file writes, \<open>db.commit()\<close> and \<open>db.refresh(submission)\<close>.
\<close>

record request_env =
  utcnow :: string
  docx_raises :: bool
  docx_structured_data :: json
  json_loads :: "string \<Rightarrow> json option"
  json_dump :: "json \<Rightarrow> string"
  remove_raises :: "string \<Rightarrow> bool"
  write_outcome :: "string \<Rightarrow> write_outcome"
  commit_raises :: bool
  refresh_raises :: bool

datatype http_error = HTTPException int string

text \<open>\<open>query(...).filter(...).first()\<close>\<close>

definition query_first :: "('a \<Rightarrow> bool) \<Rightarrow> 'a list \<Rightarrow> 'a option" where
  "query_first p xs = List.find p xs"

text \<open>Assigning to the attributes of the object a query returned changes that row.\<close>

fun update_first :: "('a \<Rightarrow> bool) \<Rightarrow> ('a \<Rightarrow> 'a) \<Rightarrow> 'a list \<Rightarrow> 'a list" where
  "update_first p f [] = []"
| "update_first p f (x # xs) = (if p x then f x # xs else x # update_first p f xs)"

text \<open>Decimal rendering of an integer inside an f-string.\<close>

function str_nat :: "nat \<Rightarrow> string" where
  "str_nat n = (if n < 10 then [''0123456789'' ! n]
                else str_nat (n div 10) @ [''0123456789'' ! (n mod 10)])"
  by pat_completeness auto
termination
  by (relation "measure id") auto

definition str_int :: "int \<Rightarrow> string" where
  "str_int i = (if i < 0 then CHR ''-'' # str_nat (nat (- i)) else str_nat (nat i))"

definition APPROVED_DIR :: string where
  "APPROVED_DIR = ''approved''"

definition make_section_id :: "int \<Rightarrow> string \<Rightarrow> string" where
  "make_section_id document' now = ''DOC-'' @ str_int document' @ ''-'' @ now"

definition artifact_path :: "string \<Rightarrow> string \<Rightarrow> string" where
  "artifact_path section' ext = APPROVED_DIR @ ''/'' @ section' @ ext"

text \<open>
  Step 4, one old file: removed when it exists; a failing \<open>os.remove\<close> is caught and
  only logged.
\<close>

definition remove_old_file :: "request_env \<Rightarrow> filesystem \<Rightarrow> string \<Rightarrow> filesystem" where
  "remove_old_file env fs p =
     (if fs p \<noteq> None then (if remove_raises env p then fs else fs(p := None)) else fs)"

definition cleanup_old_files :: "request_env \<Rightarrow> filesystem \<Rightarrow> ApprovedDocument option \<Rightarrow> filesystem" where
  "cleanup_old_files env fs existing_approved =
     (case existing_approved of
        None \<Rightarrow> fs
      | Some old \<Rightarrow>
          remove_old_file env (remove_old_file env fs (xml_file_path old)) (json_file_path old))"

text \<open>
  Step 5, one new file: \<open>open(path, "w")\<close> and the write. The flag tells whether
  the write went through; a write that raises half way leaves the truncated file.
\<close>

definition write_file :: "request_env \<Rightarrow> filesystem \<Rightarrow> string \<Rightarrow> string \<Rightarrow> bool \<times> filesystem" where
  "write_file env fs p content =
     (case write_outcome env p of
        Written \<Rightarrow> (True, fs(p \<mapsto> content))
      | OpenRaises \<Rightarrow> (False, fs)
      | WriteRaises partial \<Rightarrow> (False, fs(p \<mapsto> partial)))"

text \<open>The key the database gives to an inserted row.\<close>

definition next_ad_id :: "ApprovedDocument list \<Rightarrow> int" where
  "next_ad_id rs = foldr (\<lambda>r m. max (ad_id r + 1) m) rs 1"

text \<open>Step 6: update the existing row in place, or add the first one.\<close>

definition upsert_approved ::
  "ApprovedDocument list \<Rightarrow> ApprovedDocument option \<Rightarrow> int \<Rightarrow> string \<Rightarrow> string \<Rightarrow> string \<Rightarrow>
   SubmissionReview \<Rightarrow> string \<Rightarrow> ApprovedDocument list" where
  "upsert_approved rs existing_approved document' section' xml_path json_path review now =
     (case existing_approved of
        Some old \<Rightarrow>
          update_first (\<lambda>r. document_id r = document')
            (\<lambda>r. r\<lparr>section_id := section', version := version r + 1,
                   xml_file_path := xml_path, json_file_path := json_path,
                   approved_by := rv_reviewed_by review, approved_at := now,
                   approval_notes := rv_review_notes review\<rparr>) rs
      | None \<Rightarrow>
          rs @ [\<lparr>ad_id = next_ad_id rs, document_id = document', section_id = section',
                 version = 1, xml_file_path = xml_path, json_file_path = json_path,
                 approved_by = rv_reviewed_by review, approved_at = now,
                 approval_notes = rv_review_notes review\<rparr>])"

text \<open>
  The answer of the exception handler: status 500. Its detail begins with these words and
  goes on with the text of the exception, which is left out.
\<close>

definition server_error :: http_error where
  "server_error = HTTPException 500 ''Failed to review submission''"

text \<open>
  Step 2: the structured data to approve is what the document holds now, or, when that
  is empty, the JSON stored with the submission; \<open>None\<close> when \<open>json.loads\<close> raises.
\<close>

definition final_structured_data :: "request_env \<Rightarrow> Submission \<Rightarrow> json option" where
  "final_structured_data env submission =
     (let updated_structured_data = docx_structured_data env
      in if py_truthy updated_structured_data then Some updated_structured_data
         else json_loads env (normalized_json submission))"

text \<open>
  The approved branch, steps 1 to 6, on the session's pending database. An exception
  leaves the file system as it is at that moment and returns no database: the handler
  rolls the session back.
\<close>

definition approve_steps ::
  "database \<Rightarrow> filesystem \<Rightarrow> request_env \<Rightarrow> Submission \<Rightarrow> SubmissionReview \<Rightarrow>
   database option \<times> filesystem" where
  "approve_steps db fs env submission review =
     (let document' = sub_document_id submission;
          db1 = db\<lparr>documents := update_first (\<lambda>d. doc_id d = document')
                   (\<lambda>d. d\<lparr>doc_status := ''approved'', is_locked := True\<rparr>) (documents db)\<rparr>
      in if docx_raises env then (None, fs)
         else
           (case final_structured_data env submission of
              None \<Rightarrow> (None, fs)
            | Some final \<Rightarrow>
                (let existing_approved =
                       query_first (\<lambda>r. document_id r = document') (approved_documents db1);
                     fs1 = cleanup_old_files env fs existing_approved;
                     section' = make_section_id document' (utcnow env);
                     xml_path = artifact_path section' ''.xml'';
                     json_path = artifact_path section' ''.json'';
                     xml_written = write_file env fs1 xml_path (document_xml submission)
                 in if \<not> fst xml_written then (None, snd xml_written)
                    else
                      (let json_written =
                             write_file env (snd xml_written) json_path (json_dump env final)
                       in if \<not> fst json_written then (None, snd json_written)
                          else
                            (Some (db1\<lparr>approved_documents :=
                                     upsert_approved (approved_documents db1) existing_approved
                                       document' section' xml_path json_path review (utcnow env)\<rparr>),
                             snd json_written)))))"

text \<open>Step 3 of the validation part: the review is recorded on the submission.\<close>

definition mark_reviewed :: "Submission \<Rightarrow> SubmissionReview \<Rightarrow> string \<Rightarrow> Submission" where
  "mark_reviewed found review now =
     found\<lparr>sub_status := rv_status review, reviewed_by := Some (rv_reviewed_by review),
           reviewed_at := Some now, review_notes := rv_review_notes review\<rparr>"

text \<open>
  The branch on the review status: approved runs the approval steps, rejected returns
  the document to draft and unlocks it, any other status touches no document.
\<close>

definition apply_decision ::
  "database \<Rightarrow> filesystem \<Rightarrow> request_env \<Rightarrow> Submission \<Rightarrow> SubmissionReview \<Rightarrow>
   database option \<times> filesystem" where
  "apply_decision db fs env submission review =
     (if rv_status review = ''approved'' then approve_steps db fs env submission review
      else if rv_status review = ''rejected''
      then (Some (db\<lparr>documents :=
              update_first (\<lambda>d. doc_id d = sub_document_id submission)
                (\<lambda>d. d\<lparr>doc_status := ''draft'', is_locked := False\<rparr>) (documents db)\<rparr>), fs)
      else (Some db, fs))"

text \<open>
  \<open>db.commit()\<close> and the exception handler: a step that raised, or a commit that
  raises, ends in \<open>db.rollback()\<close> and a 500; otherwise the pending changes are
  committed.
\<close>

definition commit_or_rollback ::
  "request_env \<Rightarrow> Submission \<Rightarrow> database option \<times> filesystem \<Rightarrow>
   (http_error + Submission \<times> database) \<times> filesystem" where
  "commit_or_rollback env submission outcome =
     (case fst outcome of
        None \<Rightarrow> (Inl server_error, snd outcome)
      | Some pending \<Rightarrow>
          if commit_raises env then (Inl server_error, snd outcome)
          else (Inr (submission, pending), snd outcome))"

text \<open>
  The handler's \<open>try\<close> block up to and including \<open>db.commit()\<close>: either an error, with
  nothing committed, or the reviewed submission and the committed database. The two 404
  exits are raised before anything is changed.
\<close>

definition review_transaction ::
  "database \<Rightarrow> filesystem \<Rightarrow> request_env \<Rightarrow> int \<Rightarrow> SubmissionReview \<Rightarrow>
   (http_error + Submission \<times> database) \<times> filesystem" where
  "review_transaction db fs env submission_id review =
     (case query_first (\<lambda>s. sub_id s = submission_id) (submissions db) of
        None \<Rightarrow> (Inl (HTTPException 404 ''Submission not found''), fs)
      | Some found \<Rightarrow>
          (case query_first (\<lambda>d. doc_id d = sub_document_id found) (documents db) of
             None \<Rightarrow> (Inl (HTTPException 404 ''Document not found''), fs)
           | Some document' \<Rightarrow>
               commit_or_rollback env (mark_reviewed found review (utcnow env))
                 (apply_decision
                    (db\<lparr>submissions :=
                         update_first (\<lambda>s. sub_id s = submission_id)
                           (\<lambda>s. mark_reviewed found review (utcnow env)) (submissions db)\<rparr>)
                    fs env (mark_reviewed found review (utcnow env)) review)))"

text \<open>
  \<open>review_submission(submission_id, review, db)\<close>: the answer, the committed database
  and the file system after the request. After the commit the handler still calls
  \<open>db.refresh(submission)\<close> inside the same \<open>try\<close>; when that raises, the rollback of
  the handler has nothing left to undo and the request answers 500 with its changes
  committed.
\<close>

definition review_submission ::
  "database \<Rightarrow> filesystem \<Rightarrow> request_env \<Rightarrow> int \<Rightarrow> SubmissionReview \<Rightarrow>
   (http_error + Submission) \<times> database \<times> filesystem" where
  "review_submission db fs env submission_id review =
     (case review_transaction db fs env submission_id review of
        (Inl e, fs') \<Rightarrow> (Inl e, db, fs')
      | (Inr (submission, db'), fs') \<Rightarrow>
          if refresh_raises env then (Inl server_error, db', fs')
          else (Inr submission, db', fs'))"

text \<open>A sequence of review requests served one after the other.\<close>

record review_call =
  call_submission_id :: int
  call_review :: SubmissionReview
  call_env :: request_env

definition serve :: "database \<times> filesystem \<Rightarrow> review_call \<Rightarrow> (http_error + Submission) \<times> database \<times> filesystem" where
  "serve st c =
     review_submission (fst st) (snd st) (call_env c) (call_submission_id c) (call_review c)"

fun run_reviews :: "database \<times> filesystem \<Rightarrow> review_call list \<Rightarrow> database \<times> filesystem" where
  "run_reviews st [] = st"
| "run_reviews st (c # cs) = run_reviews (snd (serve st c)) cs"

text \<open>
  A request is an approval of document \<open>D\<close> when its transaction commits with status
  approved on a submission of \<open>D\<close>: by then the row of \<open>D\<close> has been created or
  updated, whatever the request answers afterwards.
\<close>

definition is_approval_of :: "int \<Rightarrow> database \<times> filesystem \<Rightarrow> review_call \<Rightarrow> bool" where
  "is_approval_of D st c =
     (case fst (review_transaction (fst st) (snd st) (call_env c) (call_submission_id c)
                  (call_review c)) of
        Inl e \<Rightarrow> False
      | Inr (s, db') \<Rightarrow> sub_document_id s = D \<and> rv_status (call_review c) = ''approved'')"




section \<open>Document lifecycle\<close>

text \<open>
  The review transition is the endpoint above. The other transitions are served by
  endpoints of the backend (\<open>upload\<close>, \<open>lock\<close>, \<open>unlock\<close>, \<open>reset\<close>, \<open>submit\<close>)
  whose code is not part of the sources at hand; each of them is modelled from the
  transition list of the specification.
\<close>

datatype lifecycle_error = InvalidTransition string

text \<open>
  Modelled from the spec: the upload endpoint is missing; \<open>upload\<close> leads to
  \<open>locked\<close>, documents are protected by default.
\<close>

definition upload_document :: "database \<Rightarrow> int \<Rightarrow> string \<Rightarrow> database" where
  "upload_document db new_id path =
     db\<lparr>documents := documents db @
          [\<lparr>doc_id = new_id, doc_status = ''locked'', is_locked = True, file_path = path\<rparr>]\<rparr>"

text \<open>
  Modelled from the spec: the unlock endpoint is missing; \<open>locked\<close> or \<open>draft\<close> goes to
  \<open>draft\<close> on unlock, and a force unlock is permitted from any state and always resets
  to \<open>draft\<close>. An invalid attempt is an error carrying the current status.
\<close>

definition unlock_document :: "bool \<Rightarrow> Document \<Rightarrow> lifecycle_error + Document" where
  "unlock_document force d =
     (if force \<or> doc_status d = ''locked'' \<or> doc_status d = ''draft''
      then Inr (d\<lparr>doc_status := ''draft'', is_locked := False\<rparr>)
      else Inl (InvalidTransition (doc_status d)))"

text \<open>Modelled from the spec: the lock endpoint is missing; \<open>draft\<close> goes to \<open>locked\<close> on lock.\<close>

definition lock_document :: "Document \<Rightarrow> lifecycle_error + Document" where
  "lock_document d =
     (if doc_status d = ''draft''
      then Inr (d\<lparr>doc_status := ''locked'', is_locked := True\<rparr>)
      else Inl (InvalidTransition (doc_status d)))"

text \<open>
  Modelled from the spec: the submit endpoint is missing; \<open>locked\<close> goes to
  \<open>submitted\<close> on submit (a draft is locked implicitly), and submit is rejected while
  gaps required for completeness are unresolved or when the document is already
  submitted, under review or approved.
\<close>

definition submit_document :: "bool \<Rightarrow> Document \<Rightarrow> lifecycle_error + Document" where
  "submit_document unresolved_gaps d =
     (if unresolved_gaps \<or> doc_status d = ''submitted'' \<or> doc_status d = ''under_review'' \<or>
         doc_status d = ''approved''
      then Inl (InvalidTransition (doc_status d))
      else Inr (d\<lparr>doc_status := ''submitted'', is_locked := True\<rparr>))"

text \<open>
  Modelled from the spec: the reset endpoint is missing; any state goes to \<open>draft\<close>,
  unlocked, on reset.
\<close>

definition reset_document :: "Document \<Rightarrow> Document" where
  "reset_document d = d\<lparr>doc_status := ''draft'', is_locked := False\<rparr>"

text \<open>A transition on the document with the given key; a rejected attempt changes nothing.\<close>

definition on_document ::
  "int \<Rightarrow> (Document \<Rightarrow> lifecycle_error + Document) \<Rightarrow> database \<Rightarrow> database" where
  "on_document i tr db =
     db\<lparr>documents := update_first (\<lambda>d. doc_id d = i)
          (\<lambda>d. case tr d of Inl e \<Rightarrow> d | Inr d' \<Rightarrow> d') (documents db)\<rparr>"

text \<open>
  Modelled from the spec: a successful submit creates a Submission snapshot of the
  document.
\<close>

definition add_submission :: "int \<Rightarrow> int \<Rightarrow> string \<Rightarrow> string \<Rightarrow> database \<Rightarrow> database" where
  "add_submission new_id i xml json db =
     db\<lparr>submissions := submissions db @
          [\<lparr>sub_id = new_id, sub_document_id = i, sub_status = ''submitted'',
            reviewed_by = None, reviewed_at = None, review_notes = None,
            document_xml = xml, normalized_json = json\<rparr>]\<rparr>"

datatype lifecycle_event =
    Upload int string
  | Unlock int bool
  | Lock int
  | Submit int bool int string string
  | Review int SubmissionReview request_env
  | Reset int

fun lifecycle_step :: "database \<times> filesystem \<Rightarrow> lifecycle_event \<Rightarrow> database \<times> filesystem" where
  "lifecycle_step (db, fs) (Upload new_id path) = (upload_document db new_id path, fs)"
| "lifecycle_step (db, fs) (Unlock i force) = (on_document i (unlock_document force) db, fs)"
| "lifecycle_step (db, fs) (Lock i) = (on_document i lock_document db, fs)"
| "lifecycle_step (db, fs) (Submit i unresolved_gaps new_id xml json) =
     (case query_first (\<lambda>d. doc_id d = i) (documents db) of
        None \<Rightarrow> (db, fs)
      | Some d \<Rightarrow>
          (case submit_document unresolved_gaps d of
             Inl e \<Rightarrow> (db, fs)
           | Inr d' \<Rightarrow>
               (add_submission new_id i xml json
                  (on_document i (submit_document unresolved_gaps) db), fs)))"
| "lifecycle_step (db, fs) (Review sid review env) = snd (review_submission db fs env sid review)"
| "lifecycle_step (db, fs) (Reset i) = (on_document i (\<lambda>d. Inr (reset_document d)) db, fs)"

definition empty_database :: database where
  "empty_database = \<lparr>submissions = [], documents = [], approved_documents = []\<rparr>"

definition run_lifecycle :: "lifecycle_event list \<Rightarrow> database \<times> filesystem" where
  "run_lifecycle evs = foldl lifecycle_step (empty_database, Map.empty) evs"

text \<open>The lock bit agrees with the status.\<close>

definition lock_consistent :: "Document \<Rightarrow> bool" where
  "lock_consistent d =
     ((doc_status d = ''approved'' \<longrightarrow> is_locked d) \<and> (doc_status d = ''draft'' \<longrightarrow> \<not> is_locked d))"

section \<open>A small installation used in the examples\<close>

text \<open>Document 3 has been submitted as submission 1; nothing is approved yet.\<close>

definition demo_db :: database where
  "demo_db =
     \<lparr>submissions =
        [\<lparr>sub_id = 1, sub_document_id = 3, sub_status = ''submitted'', reviewed_by = None,
          reviewed_at = None, review_notes = None, document_xml = ''<document/>'',
          normalized_json = ''{}''\<rparr>],
      documents =
        [\<lparr>doc_id = 3, doc_status = ''submitted'', is_locked = True, file_path = ''uploads/3.docx''\<rparr>],
      approved_documents = []\<rparr>"

definition demo_review :: "string \<Rightarrow> SubmissionReview" where
  "demo_review st = \<lparr>rv_status = st, rv_review_notes = Some ''Looks good'', rv_reviewed_by = ''Reviewer''\<rparr>"

text \<open>
  A request at the given time in which nothing fails. The library functions are
  represented by a \<open>json.loads\<close> that reads every text as the empty dictionary and a
  \<open>json.dump\<close> that writes a fixed text for the document's data and \<open>{}\<close> otherwise.
\<close>

definition docx_data :: json where
  "docx_data = JObject [(''tables'', JArray [])]"

definition calm_env :: "string \<Rightarrow> request_env" where
  "calm_env now =
     \<lparr>utcnow = now, docx_raises = False, docx_structured_data = docx_data,
      json_loads = (\<lambda>t. Some (JObject [])),
      json_dump = (\<lambda>v. if v = docx_data then ''{tables: []}'' else ''{}''),
      remove_raises = (\<lambda>p. False), write_outcome = (\<lambda>p. Written),
      commit_raises = False, refresh_raises = False\<rparr>"

definition demo_call :: "string \<Rightarrow> request_env \<Rightarrow> review_call" where
  "demo_call st env = \<lparr>call_submission_id = 1, call_review = demo_review st, call_env = env\<rparr>"


text \<open>
  A re-approval during which the write of the JSON artifact raises after the file has
  been opened and one character written.
\<close>

definition json_write_fails :: review_call where
  "json_write_fails =
     demo_call ''approved''
       ((calm_env ''20251126101500'')
          \<lparr>write_outcome := (\<lambda>p. if p = ''approved/DOC-3-20251126101500.json''
                                   then WriteRaises ''{'' else Written)\<rparr>)"

text \<open>Two lives of a document: approved at the end, and rejected at the end.\<close>

definition approved_life :: "lifecycle_event list" where
  "approved_life =
     [Upload 3 ''uploads/3.docx'', Unlock 3 False, Lock 3, Submit 3 False 1 ''<document/>'' ''{}'',
      Review 1 (demo_review ''approved'') (calm_env ''20251125003620'')]"

definition rejected_life :: "lifecycle_event list" where
  "rejected_life =
     [Upload 3 ''uploads/3.docx'', Submit 3 False 1 ''<document/>'' ''{}'',
      Review 1 (demo_review ''rejected'') (calm_env ''20251125003620'')]"

section \<open>The rendered view (DOM) read by the document viewer\<close>

text \<open>
  The editable surface is an HTML tree. A node is a text node or an element with its
  tag name (upper case, as \<open>tagName\<close> reports it), its attributes and its children.
  An element of the view is identified by its path: the child indices from the root.
\<close>

datatype dom = TextNode string | Element string "(string \<times> string) list" "dom list"

type_synonym path = "nat list"

fun textContent :: "dom \<Rightarrow> string" where
  "textContent (TextNode s) = s"
| "textContent (Element t as cs) = concat (map textContent cs)"

text \<open>All descendants of a node in document order, each with its path below the node.\<close>

fun descendants :: "dom \<Rightarrow> (path \<times> dom) list"
  and descendants_from :: "nat \<Rightarrow> dom list \<Rightarrow> (path \<times> dom) list" where
  "descendants (TextNode s) = []"
| "descendants (Element t as cs) = descendants_from 0 cs"
| "descendants_from i [] = []"
| "descendants_from i (c # cs) =
     ([i], c) # map (\<lambda>(p, n). (i # p, n)) (descendants c) @ descendants_from (Suc i) cs"

definition has_tag :: "string list \<Rightarrow> dom \<Rightarrow> bool" where
  "has_tag ts n = (case n of TextNode s \<Rightarrow> False | Element t as cs \<Rightarrow> t \<in> set ts)"

definition getAttribute :: "string \<Rightarrow> dom \<Rightarrow> string option" where
  "getAttribute a n = (case n of TextNode s \<Rightarrow> None | Element t as cs \<Rightarrow> map_of as a)"

text \<open>\<open>node.querySelectorAll(selector)\<close>, with paths relative to \<open>node\<close>.\<close>

definition querySelectorAll :: "(dom \<Rightarrow> bool) \<Rightarrow> dom \<Rightarrow> (path \<times> dom) list" where
  "querySelectorAll sel node = filter (\<lambda>(p, n). sel n) (descendants node)"

text \<open>\<open>node.querySelector(selector)\<close>: the first match in document order.\<close>

definition querySelector :: "(dom \<Rightarrow> bool) \<Rightarrow> dom \<Rightarrow> (path \<times> dom) option" where
  "querySelector sel node = (case querySelectorAll sel node of [] \<Rightarrow> None | x # xs \<Rightarrow> Some x)"

section \<open>Reconciliation of the edited view into the structure (DocumentViewer.js, \<open>handleSave\<close>)\<close>

record para =
  para_text :: string

record document_structure =
  paragraphs :: "para list"
  tables :: "table list"

text \<open>
  \<open>ys.forEach((y, i) => { if (xs[i]) { ... xs[i] ... } })\<close>: every element of the view is
  visited with its index, and the model element at that index, when there is one, is
  updated from it.
\<close>

definition forEach_indexed :: "('a \<Rightarrow> 'b \<Rightarrow> 'a) \<Rightarrow> 'a list \<Rightarrow> 'b list \<Rightarrow> 'a list" where
  "forEach_indexed f xs ys =
     foldl (\<lambda>acc (i, y). if i < length acc then acc[i := f (acc ! i) y] else acc)
       xs (zip [0 ..< length ys] ys)"

text \<open>
  The new text of a cell or paragraph is the trimmed \<open>textContent\<close> of its element; the
  two fallbacks of the source are reached only when \<open>textContent\<close> is empty and then
  yield the empty string as well. The stored text is written when it differs.
\<close>

definition newTextOf :: "dom \<Rightarrow> string" where
  "newTextOf el = trim (textContent el)"

definition updateCell :: "cell \<Rightarrow> dom \<Rightarrow> cell" where
  "updateCell c htmlCell =
     (let newText = newTextOf htmlCell; oldText = cell_text c
      in if oldText \<noteq> newText then c\<lparr>cell_text := newText\<rparr> else c)"

definition updateRow :: "row \<Rightarrow> dom \<Rightarrow> row" where
  "updateRow originalRow htmlRow =
     (let htmlCells = map snd (querySelectorAll (has_tag [''TD'', ''TH'']) htmlRow)
      in originalRow\<lparr>cells := forEach_indexed updateCell (cells originalRow) htmlCells\<rparr>)"

definition updateTable :: "table \<Rightarrow> dom \<Rightarrow> table" where
  "updateTable originalTable htmlTable =
     (let preservedTableName = table_name originalTable;
          preservedTableId = table_id originalTable;
          preservedColumnHeaders = column_headers originalTable;
          htmlRows = map snd (querySelectorAll (has_tag [''TR'']) htmlTable);
          t1 = originalTable\<lparr>rows := forEach_indexed updateRow (rows originalTable) htmlRows\<rparr>;
          t2 = t1\<lparr>table_name := preservedTableName, table_id := preservedTableId\<rparr>
      in case preservedColumnHeaders of
           None \<Rightarrow> t2
         | Some hs \<Rightarrow> t2\<lparr>column_headers := Some hs\<rparr>)"

definition updateParagraph :: "para \<Rightarrow> dom \<Rightarrow> para" where
  "updateParagraph para htmlPara =
     (let newText = newTextOf htmlPara; oldText = para_text para
      in if oldText \<noteq> newText then para\<lparr>para_text := newText\<rparr> else para)"

text \<open>
  The branch of \<open>handleSave\<close> that merges the edited HTML (\<open>tempDiv\<close>) into the
  structure kept from the last load.
\<close>

definition reconcile :: "document_structure \<Rightarrow> dom \<Rightarrow> document_structure" where
  "reconcile documentStructure tempDiv =
     (let htmlTables = map snd (querySelectorAll (has_tag [''TABLE'']) tempDiv);
          s1 = documentStructure\<lparr>tables :=
                 forEach_indexed updateTable (tables documentStructure) htmlTables\<rparr>;
          htmlParagraphs = map snd (querySelectorAll (has_tag [''P'']) tempDiv)
      in s1\<lparr>paragraphs := forEach_indexed updateParagraph (paragraphs s1) htmlParagraphs\<rparr>)"

text \<open>Saving several edited views one after the other.\<close>

definition reconcile_all :: "document_structure \<Rightarrow> dom list \<Rightarrow> document_structure" where
  "reconcile_all s views = foldl reconcile s views"

text \<open>The same loop by recursion on both lists; it is shown equal to \<open>forEach_indexed\<close>.\<close>

fun zipUpdate :: "('a \<Rightarrow> 'b \<Rightarrow> 'a) \<Rightarrow> 'a list \<Rightarrow> 'b list \<Rightarrow> 'a list" where
  "zipUpdate f [] ys = []"
| "zipUpdate f (x # xs) [] = x # xs"
| "zipUpdate f (x # xs) (y # ys) = f x y # zipUpdate f xs ys"

text \<open>The cell elements the view offers for row \<open>r\<close> of table \<open>ti\<close>; none when the view has no such row.\<close>

definition htmlCellsAt :: "dom \<Rightarrow> nat \<Rightarrow> nat \<Rightarrow> dom list" where
  "htmlCellsAt tempDiv ti r =
     (let htmlTables = map snd (querySelectorAll (has_tag [''TABLE'']) tempDiv)
      in if ti < length htmlTables
         then (let htmlRows = map snd (querySelectorAll (has_tag [''TR'']) (htmlTables ! ti))
               in if r < length htmlRows
                  then map snd (querySelectorAll (has_tag [''TD'', ''TH'']) (htmlRows ! r))
                  else [])
         else [])"

text \<open>The stored cell at row \<open>r\<close>, column \<open>c\<close> of table \<open>ti\<close>.\<close>

definition cellAt :: "document_structure \<Rightarrow> nat \<Rightarrow> nat \<Rightarrow> nat \<Rightarrow> cell" where
  "cellAt s ti r c = cells (rows (tables s ! ti) ! r) ! c"

text \<open>
  A materials table with its header row and one data row, the paragraph above it, and
  the view after the user has typed into the header row and filled the pending cell.
\<close>

definition mkCell :: "string \<Rightarrow> string \<Rightarrow> cell" where
  "mkCell i t = blankCell\<lparr>cell_id := i, cell_text := t\<rparr>"

definition materials_table :: table where
  "materials_table =
     \<lparr>table_id = ''table_0'', table_name = ''Materials'',
      column_headers = Some [''Name'', ''Catalog #''],
      rows = [\<lparr>row_id = ''row_0_0'', cells = [mkCell ''cell_0_0_0'' ''Name'', mkCell ''cell_0_0_1'' ''Catalog #'']\<rparr>,
              \<lparr>row_id = ''row_0_1'', cells = [mkCell ''cell_0_1_0'' ''Buffer'', mkCell ''cell_0_1_1'' ''(Pending)'']\<rparr>]\<rparr>"

definition materials_structure :: document_structure where
  "materials_structure =
     \<lparr>paragraphs = [\<lparr>para_text = ''3.Equipment Configuration''\<rparr>], tables = [materials_table]\<rparr>"

definition edited_view :: dom where
  "edited_view =
     Element ''DIV'' []
       [Element ''P'' [] [TextNode ''3.Equipment Configuration''],
        Element ''TABLE'' []
          [Element ''TR'' []
             [Element ''TD'' [(''data-cell-id'', ''table-0-row-0-cell-0'')] [TextNode ''BG_ATN''],
              Element ''TD'' [(''data-cell-id'', ''table-0-row-0-cell-1'')] [TextNode ''Material_CTG#'']],
           Element ''TR'' []
             [Element ''TD'' [(''data-cell-id'', ''table-0-row-1-cell-0'')] [TextNode ''Buffer''],
              Element ''TD'' [(''data-cell-id'', ''table-0-row-1-cell-1'')]
                [Element ''SPAN'' [(''class'', ''highlight-pending'')] [TextNode '' CAT-123 '']]]]]"

text \<open>A table whose second header cell is blank.\<close>

definition blank_header_table :: table where
  "blank_header_table =
     \<lparr>table_id = ''table_1'', table_name = ''Equipment'', column_headers = None,
      rows = [\<lparr>row_id = ''row_1_0'', cells = [mkCell ''cell_1_0_0'' ''Name'', mkCell ''cell_1_0_1'' '''']\<rparr>,
              \<lparr>row_id = ''row_1_1'', cells = [mkCell ''cell_1_1_0'' ''Pump'', mkCell ''cell_1_1_1'' ''P-7'']\<rparr>]\<rparr>"

section \<open>Loading the document into the rendered view (DocumentViewer.js, \<open>loadDocument\<close>)\<close>

text \<open>
  \<open>loadDocument\<close> fetches the document that the backend wrote, converts it to HTML,
  wraps the gap words of the text between tags in marker spans and gives every table
  cell its identity tag. The HTML is represented by its parse tree; a text node stands
  for the text between two tags, with its characters as they are displayed.
\<close>

subsection \<open>The regular expressions of \<open>highlightTextContent\<close>\<close>

text \<open>A word character of \<open>\b\<close>: a letter, a digit or the underscore.\<close>

definition is_word_char :: "char \<Rightarrow> bool" where
  "is_word_char c =
     (c \<in> set (''abcdefghijklmnopqrstuvwxyz'' @ ''ABCDEFGHIJKLMNOPQRSTUVWXYZ'' @ ''0123456789_''))"



text \<open>
  The flag \<open>i\<close>: two characters match when their canonical forms agree. For the
  characters of the model this identifies the letters a to z with their capitals and
  nothing else.
\<close>

definition canonicalize :: "char \<Rightarrow> char" where
  "canonicalize c =
     (case map_of (zip ''abcdefghijklmnopqrstuvwxyz'' ''ABCDEFGHIJKLMNOPQRSTUVWXYZ'') c of
        Some d \<Rightarrow> d
      | None \<Rightarrow> c)"








subsection \<open>\<open>highlightTextContent\<close>\<close>












subsection \<open>Highlighting the text between tags\<close>





subsection \<open>Identity tags of the table cells\<close>







subsection \<open>Projection and its inverse\<close>




text \<open>
  The view agrees with the model: wherever the save finds an element for a stored cell
  or paragraph, the trimmed text of the element is the stored text. The element of a
  cell is found by the position of its table among the tables, of its row among the
  rows of the table and of the cell in the row; the element of a paragraph is found by
  its position among all \<open>p\<close> elements of the view.
\<close>

definition rowAligned :: "row \<Rightarrow> dom \<Rightarrow> bool" where
  "rowAligned originalRow htmlRow =
     list_all (\<lambda>(c, htmlCell). cell_text c = newTextOf htmlCell)
       (zip (cells originalRow) (map snd (querySelectorAll (has_tag [''TD'', ''TH'']) htmlRow)))"

definition tableAligned :: "table \<Rightarrow> dom \<Rightarrow> bool" where
  "tableAligned originalTable htmlTable =
     list_all (\<lambda>(r, htmlRow). rowAligned r htmlRow)
       (zip (rows originalTable) (map snd (querySelectorAll (has_tag [''TR'']) htmlTable)))"

definition aligned :: "document_structure \<Rightarrow> dom \<Rightarrow> bool" where
  "aligned documentStructure tempDiv =
     (list_all (\<lambda>(t, htmlTable). tableAligned t htmlTable)
        (zip (tables documentStructure) (map snd (querySelectorAll (has_tag [''TABLE'']) tempDiv))) \<and>
      list_all (\<lambda>(p, htmlPara). para_text p = newTextOf htmlPara)
        (zip (paragraphs documentStructure) (map snd (querySelectorAll (has_tag [''P'']) tempDiv))))"


subsection \<open>Two views of a tree used in the proofs\<close>



subsection \<open>The written and converted document\<close>










section \<open>Cursor restoration (DocumentViewer.js, \<open>restoreCursorPosition\<close>)\<close>

text \<open>
  The selection saved by \<open>saveCursorPosition\<close>, with the \<open>editedText\<close> that
  \<open>handleSave\<close> adds. Indices come from \<open>indexOf\<close> and may be \<open>-1\<close>.
\<close>

record saved_selection =
  cellId :: "string option"
  saved_textContent :: string
  cellPosition :: "(int \<times> int \<times> int) option"
  paragraphIndex :: "int option"
  tagName :: string
  offset :: nat
  parentText :: string
  editedText :: "string option"

text \<open>Truthiness of an optional string: present and not empty.\<close>

definition truthy_string :: "string option \<Rightarrow> bool" where
  "truthy_string s = (case s of None \<Rightarrow> False | Some t \<Rightarrow> t \<noteq> [])"

text \<open>\<open>xs[i]\<close> for an index that may lie outside the list.\<close>

definition at_index :: "'a list \<Rightarrow> int \<Rightarrow> 'a option" where
  "at_index xs i = (if 0 \<le> i \<and> nat i < length xs then Some (xs ! nat i) else None)"

text \<open>\<open>querySelector('[data-cell-id="..."]')\<close>, tried when a cell id was saved.\<close>

definition byCellId :: "saved_selection \<Rightarrow> dom \<Rightarrow> path option" where
  "byCellId saved root =
     (if truthy_string (cellId saved)
      then map_option fst
             (querySelector (\<lambda>n. getAttribute ''data-cell-id'' n = cellId saved) root)
      else None)"

text \<open>\<open>querySelector('[data-editing="true"]')\<close>\<close>

definition byEditingMark :: "dom \<Rightarrow> path option" where
  "byEditingMark root =
     map_option fst (querySelector (\<lambda>n. getAttribute ''data-editing'' n = Some ''true'') root)"

text \<open>The cell at the saved table, row and cell index.\<close>

definition byCellPosition :: "saved_selection \<Rightarrow> dom \<Rightarrow> path option" where
  "byCellPosition saved root =
     (case cellPosition saved of
        None \<Rightarrow> None
      | Some (tableIndex, rowIndex, cellIndex) \<Rightarrow>
          (case at_index (querySelectorAll (has_tag [''TABLE'']) root) tableIndex of
             None \<Rightarrow> None
           | Some (pt, tbl) \<Rightarrow>
               (case at_index (querySelectorAll (has_tag [''TR'']) tbl) rowIndex of
                  None \<Rightarrow> None
                | Some (pr, rw) \<Rightarrow>
                    (case at_index (querySelectorAll (has_tag [''TD'', ''TH'']) rw) cellIndex of
                       None \<Rightarrow> None
                     | Some (pc, cl) \<Rightarrow> Some (pt @ pr @ pc)))))"

text \<open>The test of the loop over \<open>td, th, p\<close> that looks for the edited text.\<close>

definition editedTextMatches :: "string \<Rightarrow> string \<Rightarrow> bool" where
  "editedTextMatches elText savedEditedText =
     (elText \<noteq> [] \<and>
      (elText = savedEditedText \<or> startsWith elText savedEditedText \<or>
       startsWith savedEditedText elText \<or>
       substring0 elText (min 50 (length savedEditedText)) =
         substring0 savedEditedText (min 50 (length elText))))"

definition byEditedText :: "saved_selection \<Rightarrow> dom \<Rightarrow> path option" where
  "byEditedText saved root =
     (if truthy_string (editedText saved)
      then map_option fst
             (List.find (\<lambda>(p, el). editedTextMatches (trim (textContent el))
                                     (trim (the (editedText saved))))
                (querySelectorAll (has_tag [''TD'', ''TH'', ''P'']) root))
      else None)"

text \<open>The test of the loop that looks for the text saved before the edit.\<close>

definition savedTextMatches :: "string \<Rightarrow> string \<Rightarrow> bool" where
  "savedTextMatches elText savedText =
     (elText \<noteq> [] \<and>
      (startsWith elText savedText \<or> startsWith savedText elText \<or>
       substring0 elText 50 = substring0 savedText 50))"

definition byOriginalText :: "saved_selection \<Rightarrow> dom \<Rightarrow> path option" where
  "byOriginalText saved root =
     (if saved_textContent saved \<noteq> []
      then map_option fst
             (List.find (\<lambda>(p, el). savedTextMatches (trim (textContent el))
                                     (trim (saved_textContent saved)))
                (querySelectorAll (has_tag [''TD'', ''TH'', ''P'']) root))
      else None)"

definition byParagraphIndex :: "saved_selection \<Rightarrow> dom \<Rightarrow> path option" where
  "byParagraphIndex saved root =
     (case paragraphIndex saved of
        None \<Rightarrow> None
      | Some i \<Rightarrow> map_option fst (at_index (querySelectorAll (has_tag [''P'']) root) i))"

text \<open>
  The \<open>targetElement\<close> that \<open>restoreCursorPosition\<close> settles on: each attempt runs
  only while no target has been found.
\<close>

definition findTargetElement :: "saved_selection \<Rightarrow> dom \<Rightarrow> path option" where
  "findTargetElement saved root =
     (let t1 = byCellId saved root;
          t2 = (if t1 = None then byEditingMark root else t1);
          t3 = (if t2 = None \<and> cellPosition saved \<noteq> None then byCellPosition saved root else t2);
          t4 = (if t3 = None \<and> truthy_string (editedText saved) then byEditedText saved root else t3);
          t5 = (if t4 = None \<and> saved_textContent saved \<noteq> [] then byOriginalText saved root else t4);
          t6 = (if t5 = None \<and> paragraphIndex saved \<noteq> None then byParagraphIndex saved root else t5)
      in t6)"

text \<open>
  The value \<open>restoreCursorPosition\<close> returns: whether a target was found. Without a
  saved selection nothing is restored.
\<close>

definition restoreCursorPosition :: "saved_selection option \<Rightarrow> dom \<Rightarrow> bool" where
  "restoreCursorPosition savedSelection root =
     (case savedSelection of
        None \<Rightarrow> False
      | Some saved \<Rightarrow> findTargetElement saved root \<noteq> None)"

text \<open>The first attempt of a list that succeeds.\<close>

fun first_found :: "'a option list \<Rightarrow> 'a option" where
  "first_found [] = None"
| "first_found (None # xs) = first_found xs"
| "first_found (Some x # xs) = Some x"

text \<open>
  The order as the specification words it: identity by cell id or paragraph index, then
  an exact match of the edited text, then the prefix match of the text saved before the
  edit, then the position.
\<close>

definition byExactEditedText :: "saved_selection \<Rightarrow> dom \<Rightarrow> path option" where
  "byExactEditedText saved root =
     (case editedText saved of
        None \<Rightarrow> None
      | Some t \<Rightarrow>
          map_option fst
            (List.find (\<lambda>(p, el). trim (textContent el) = trim t)
               (querySelectorAll (has_tag [''TD'', ''TH'', ''P'']) root)))"

definition locate_as_specified :: "saved_selection \<Rightarrow> dom \<Rightarrow> path option" where
  "locate_as_specified saved root =
     first_found
       [byCellId saved root, byParagraphIndex saved root,
        byExactEditedText saved root,
        byOriginalText saved root,
        byCellPosition saved root, byParagraphIndex saved root]"

text \<open>
  A table as the converter renders it, each cell holding a paragraph, with the same
  answer in both rows; the selection saved while the user typed that answer into the
  second row; and the selection of a user who edited the second cell itself.
\<close>

definition answers_view :: dom where
  "answers_view =
     Element ''DIV'' []
       [Element ''TABLE'' []
          [Element ''TR'' []
             [Element ''TD'' [(''data-cell-id'', ''table-0-row-0-cell-0'')]
                [Element ''P'' [] [TextNode ''Yes'']]],
           Element ''TR'' []
             [Element ''TD'' [(''data-cell-id'', ''table-0-row-1-cell-0'')]
                [Element ''P'' [] [TextNode ''Yes'']]]]]"

definition paragraph_selection :: saved_selection where
  "paragraph_selection =
     \<lparr>cellId = None, saved_textContent = ''Yes'', cellPosition = None, paragraphIndex = Some 1,
      tagName = ''P'', offset = 3, parentText = ''Yes'', editedText = Some ''Yes''\<rparr>"

definition cell_selection :: saved_selection where
  "cell_selection =
     \<lparr>cellId = Some ''table-0-row-1-cell-0'', saved_textContent = ''Yes'',
      cellPosition = Some (0, 1, 0), paragraphIndex = None,
      tagName = ''TD'', offset = 3, parentText = ''Yes'', editedText = Some ''Yes''\<rparr>"

definition lost_selection :: saved_selection where
  "lost_selection =
     \<lparr>cellId = Some ''table-3-row-0-cell-0'', saved_textContent = ''Maybe'',
      cellPosition = Some (3, 0, 0), paragraphIndex = None,
      tagName = ''TD'', offset = 0, parentText = ''Maybe'', editedText = Some ''No''\<rparr>"

section \<open>Facts about the string operations\<close>


lemma startsWith_iff: "startsWith s p \<longleftrightarrow> (\<exists>b. s = p @ b)"
  unfolding startsWith_def
  by (metis append_eq_conv_conj append_take_drop_id)

lemma str_includes_iff: "str_includes s p \<longleftrightarrow> (\<exists>a b. s = a @ p @ b)"
proof (induction s)
  case Nil
  then show ?case by simp
next
  case (Cons c s)
  show ?case
  proof
    assume "str_includes (c # s) p"
    then consider "startsWith (c # s) p" | "str_includes s p" by auto
    then show "\<exists>a b. c # s = a @ p @ b"
    proof cases
      case 1
      then obtain b where "c # s = p @ b" using startsWith_iff by blast
      then have "c # s = [] @ p @ b" by simp
      then show ?thesis by blast
    next
      case 2
      then obtain a b where "s = a @ p @ b" using Cons.IH by blast
      then have "c # s = (c # a) @ p @ b" by simp
      then show ?thesis by blast
    qed
  next
    assume "\<exists>a b. c # s = a @ p @ b"
    then obtain a b where ab: "c # s = a @ p @ b" by blast
    show "str_includes (c # s) p"
    proof (cases a)
      case Nil
      then have "startsWith (c # s) p" using ab startsWith_iff by auto
      then show ?thesis by simp
    next
      case (Cons x a')
      then have "s = a' @ p @ b" using ab by simp
      then have "str_includes s p" using Cons.IH by blast
      then show ?thesis by simp
    qed
  qed
qed

lemma changeCell_is_pending: "is_pending (changeCell c v) = pendingText (toLowerCase (trim v))"
  by (simp add: changeCell_def Let_def)

lemma changeCell_has_gap:
  "has_gap (changeCell c v) =
     (pendingText (toLowerCase (trim v)) \<or> nullText (toLowerCase (trim v)) \<or>
      missingText (toLowerCase (trim v)) \<or> toLowerCase (trim v) = [])"
  by (simp add: changeCell_def Let_def)

text \<open>
  Claim C10. The pending indicator is decided by containment: whenever the trimmed,
  lower-cased new value contains \<open>(pending)\<close>, \<open>pending)\<close> or \<open>(pending\<close> anywhere, or
  is exactly \<open>pending\<close>, the edit sets \<open>is_pending\<close> (and \<open>has_gap\<close>), and
  \<open>hasGap\<close> holds of any cell carrying that text.
\<close>

theorem pending_by_containment:
  assumes "t = toLowerCase (trim newValue)"
    and "(\<exists>a b. t = a @ ''(pending)'' @ b) \<or> (\<exists>a b. t = a @ ''pending)'' @ b) \<or>
         (\<exists>a b. t = a @ ''(pending'' @ b) \<or> t = ''pending''"
  shows "is_pending (changeCell c newValue) \<and> has_gap (changeCell c newValue) \<and>
         hasGap (c\<lparr>cell_text := newValue\<rparr>)"
proof -
  have p: "pendingText t"
    using assms(2) unfolding pendingText_def str_includes_iff by blast
  have "hasGap (c\<lparr>cell_text := newValue\<rparr>)"
    using p assms(1) by (simp add: hasGap_def Let_def)
  then show ?thesis
    using p assms(1) by (simp add: changeCell_is_pending changeCell_has_gap)
qed

text \<open>The cell text \<open>Delivery (Pending confirmation)\<close> is a pending gap.\<close>

theorem pending_by_containment_witness:
  "is_pending (changeCell blankCell ''Delivery (Pending confirmation) '') \<and>
   has_gap (changeCell blankCell ''Delivery (Pending confirmation) '') \<and>
   hasGap (blankCell\<lparr>cell_text := ''Delivery (Pending confirmation) ''\<rparr>)"
proof -
  have t: "''delivery (pending confirmation)'' = toLowerCase (trim ''Delivery (Pending confirmation) '')"
    by code_simp
  have "''delivery (pending confirmation)'' = ''delivery '' @ ''(pending'' @ '' confirmation)''"
    by simp
  then have h: "(\<exists>a b. ''delivery (pending confirmation)'' = a @ ''(pending)'' @ b) \<or>
      (\<exists>a b. ''delivery (pending confirmation)'' = a @ ''pending)'' @ b) \<or>
      (\<exists>a b. ''delivery (pending confirmation)'' = a @ ''(pending'' @ b) \<or>
      ''delivery (pending confirmation)'' = ''pending''"
    by blast
  show ?thesis
    by (rule pending_by_containment [OF t h])
qed

section \<open>Facts about the table editor\<close>

text \<open>
  The editor's handler applies \<open>changeCell\<close> to the addressed cell and does nothing
  when the editor is locked.
\<close>

lemma handleCellChange_locked: "handleCellChange True t rowIdx cellIdx v = Inr t"
  by (simp add: handleCellChange_def)

lemma handleCellChange_unlocked:
  assumes "rowIdx < length (rows t)" and "cellIdx < length (cells (rows t ! rowIdx))"
  shows "\<exists>t'. handleCellChange False t rowIdx cellIdx v = Inr t' \<and>
              cells (rows t' ! rowIdx) ! cellIdx = changeCell (cells (rows t ! rowIdx) ! cellIdx) v"
  using assms by (simp add: handleCellChange_def Let_def)


lemma changeCell_original:
  "original_has_gap (changeCell c v) =
     (if original_has_gap c = None then Some (hasGap c) else original_has_gap c)"
  by (simp add: changeCell_def Let_def)

lemma changeCell_was_gap:
  "was_gap (changeCell c v) =
     (if original_has_gap c = None then Some (hasGap c) else was_gap c)"
  by (simp add: changeCell_def Let_def)

lemma changeCell_text: "cell_text (changeCell c v) = v"
  by (simp add: changeCell_def Let_def)

lemma trim_Nil: "trim [] = []"
  by (simp add: trim_def)

lemma hasGap_changeCell: "hasGap (changeCell c v) = has_gap (changeCell c v)"
  by (auto simp add: hasGap_def changeCell_def Let_def)

lemma changeCell_is_filled:
  "is_filled (changeCell c v) =
     (truthy (original_has_gap (changeCell c v)) \<and> \<not> has_gap (changeCell c v) \<and> trim v \<noteq> [])"
  by (simp add: changeCell_def Let_def)

lemma isFilled_changeCell:
  assumes "was_gap c = original_has_gap c"
  shows "isFilled (changeCell c v) = is_filled (changeCell c v)"
proof -
  have "was_gap (changeCell c v) = original_has_gap (changeCell c v)"
    using assms by (simp add: changeCell_was_gap changeCell_original)
  moreover have "trim v \<noteq> [] \<Longrightarrow> v \<noteq> []"
    using trim_Nil by auto
  ultimately show ?thesis
    unfolding isFilled_def Let_def changeCell_is_filled hasGap_changeCell changeCell_text
    by auto
qed

lemma editSession_snoc: "editSession c (vs @ [v]) = changeCell (editSession c vs) v"
  by (simp add: editSession_def)

lemma editSession_consistent:
  "was_gap c = original_has_gap c \<Longrightarrow>
   was_gap (editSession c vs) = original_has_gap (editSession c vs)"
proof (induction vs rule: rev_induct)
  case Nil
  then show ?case by (simp add: editSession_def)
next
  case (snoc v vs)
  then show ?case
    by (simp add: editSession_snoc changeCell_was_gap changeCell_original)
qed

lemma editSession_was_gap_fixed:
  "original_has_gap c \<noteq> None \<Longrightarrow>
   was_gap (editSession c vs) = was_gap c \<and> original_has_gap (editSession c vs) = original_has_gap c"
proof (induction vs rule: rev_induct)
  case Nil
  then show ?case by (simp add: editSession_def)
next
  case (snoc v vs)
  then show ?case
    by (auto simp add: editSession_snoc changeCell_was_gap changeCell_original)
qed

lemma editSession_Cons: "editSession c (v # vs) = editSession (changeCell c v) vs"
  by (simp add: editSession_def)

text \<open>
  Claim C7. Along an edit session that starts from a cell whose capture fields agree
  (both absent before the first edit, both written together by it), the cell counts as
  filled exactly when \<open>was_gap\<close> is true, the current cell has no gap and its trimmed
  text is not empty; the stored \<open>is_filled\<close> indicator agrees with \<open>isFilled\<close>
  after every edit, and \<open>was_gap\<close> is the gap state captured at the first edit.
\<close>

theorem filled_iff_was_gap:
  assumes "was_gap c0 = original_has_gap c0"
  shows "let c = editSession c0 vs in
           (isFilled c \<longleftrightarrow> was_gap c = Some True \<and> \<not> hasGap c \<and> trim (cell_text c) \<noteq> []) \<and>
           (vs \<noteq> [] \<longrightarrow> is_filled c = isFilled c) \<and>
           (vs \<noteq> [] \<and> original_has_gap c0 = None \<longrightarrow> was_gap c = Some (hasGap c0))"
proof -
  define c where "c = editSession c0 vs"
  have cons: "was_gap c = original_has_gap c"
    unfolding c_def using assms by (rule editSession_consistent)
  have "trim (cell_text c) \<noteq> [] \<Longrightarrow> cell_text c \<noteq> []"
    using trim_Nil by auto
  then have a: "isFilled c \<longleftrightarrow> was_gap c = Some True \<and> \<not> hasGap c \<and> trim (cell_text c) \<noteq> []"
    using cons unfolding isFilled_def Let_def truthy_def by auto
  have b: "is_filled c = isFilled c" if "vs \<noteq> []"
  proof -
    from that obtain ws w where vs: "vs = ws @ [w]"
      by (cases vs rule: rev_cases) auto
    have "was_gap (editSession c0 ws) = original_has_gap (editSession c0 ws)"
      using assms by (rule editSession_consistent)
    then show ?thesis
      unfolding c_def vs editSession_snoc by (simp add: isFilled_changeCell)
  qed
  have d: "was_gap c = Some (hasGap c0)" if "vs \<noteq> []" "original_has_gap c0 = None"
  proof -
    from that(1) obtain w ws where vs: "vs = w # ws"
      by (cases vs) auto
    have "original_has_gap (changeCell c0 w) \<noteq> None"
      by (simp add: changeCell_original)
    then have "was_gap (editSession (changeCell c0 w) ws) = was_gap (changeCell c0 w)"
      using editSession_was_gap_fixed by blast
    then show ?thesis
      unfolding c_def vs editSession_Cons using that(2) by (simp add: changeCell_was_gap)
  qed
  show ?thesis
    using a b d unfolding c_def [symmetric] Let_def by blast
qed




text \<open>
  A pending cell edited to \<open>CAT-123\<close> is filled; a cell that never had a gap and
  ends with the same text is not.
\<close>

theorem filled_iff_was_gap_witness:
  "was_gap pendingCell = original_has_gap pendingCell \<and>
   isFilled (editSession pendingCell [''CAT-123'']) \<and>
   is_filled (editSession pendingCell [''CAT-123'']) \<and>
   was_gap (editSession pendingCell [''CAT-123'']) = Some True \<and>
   was_gap plainCell = original_has_gap plainCell \<and>
   \<not> isFilled (editSession plainCell [''CAT-123'']) \<and>
   cell_text (editSession plainCell [''CAT-123'']) = cell_text (editSession pendingCell [''CAT-123''])"
proof -
  have h1: "was_gap pendingCell = original_has_gap pendingCell"
    by (simp add: pendingCell_def blankCell_def)
  have h2: "was_gap plainCell = original_has_gap plainCell"
    by (simp add: plainCell_def blankCell_def)
  have o1: "original_has_gap pendingCell = None"
    by (simp add: pendingCell_def blankCell_def)
  have o2: "original_has_gap plainCell = None"
    by (simp add: plainCell_def blankCell_def)
  have g1: "hasGap pendingCell"
    by code_simp
  have g2: "\<not> hasGap plainCell"
    by code_simp
  have n1: "\<not> hasGap (editSession pendingCell [''CAT-123''])"
    by code_simp
  have t1: "trim (cell_text (editSession pendingCell [''CAT-123''])) \<noteq> []"
    by code_simp
  have tx: "cell_text (editSession plainCell [''CAT-123'']) =
            cell_text (editSession pendingCell [''CAT-123''])"
    by (simp add: editSession_def changeCell_text)
  from filled_iff_was_gap [OF h1, of "[''CAT-123'']"] o1 g1 n1 t1
  have a: "isFilled (editSession pendingCell [''CAT-123'']) \<and>
           is_filled (editSession pendingCell [''CAT-123'']) \<and>
           was_gap (editSession pendingCell [''CAT-123'']) = Some True"
    by (simp add: Let_def)
  from filled_iff_was_gap [OF h2, of "[''CAT-123'']"] o2 g2
  have b: "\<not> isFilled (editSession plainCell [''CAT-123''])"
    by (simp add: Let_def)
  show ?thesis
    using h1 h2 a b tx by simp
qed



section \<open>Facts about the review endpoint\<close>



lemma length_update_first: "length (update_first p f xs) = length xs"
  by (induction xs) auto


lemma query_first_Some: "query_first p xs = Some y \<Longrightarrow> \<exists>ys. filter p xs = y # ys"
  unfolding query_first_def by (induction xs) (auto split: if_splits)






lemma commit_or_rollback_cases:
  assumes "commit_or_rollback env s outcome = (res, fs')"
  shows "(res = Inl server_error \<and> fs' = snd outcome) \<or>
         (\<exists>db'. res = Inr (s, db') \<and> fst outcome = Some db' \<and> fs' = snd outcome \<and>
                \<not> commit_raises env)"
  using assms unfolding commit_or_rollback_def
  by (auto split: option.splits if_splits)

text \<open>A committed transaction: the submission it was about, and where its database came from.\<close>

lemma review_transaction_committed:
  assumes "review_transaction db fs env sid rv = (Inr (s, db'), fs')"
  shows "\<exists>found db0. query_first (\<lambda>x. sub_id x = sid) (submissions db) = Some found \<and>
           s = mark_reviewed found rv (utcnow env) \<and>
           db0 = db\<lparr>submissions := update_first (\<lambda>x. sub_id x = sid) (\<lambda>x. s) (submissions db)\<rparr> \<and>
           apply_decision db0 fs env s rv = (Some db', fs') \<and> \<not> commit_raises env"
proof (cases "query_first (\<lambda>x. sub_id x = sid) (submissions db)")
  case None
  then show ?thesis using assms by (simp add: review_transaction_def)
next
  case (Some found)
  note found = Some
  show ?thesis
  proof (cases "query_first (\<lambda>d. doc_id d = sub_document_id found) (documents db)")
    case None
    then show ?thesis using assms found by (simp add: review_transaction_def)
  next
    case (Some doc)
    define s0 where "s0 = mark_reviewed found rv (utcnow env)"
    define db0 where "db0 = db\<lparr>submissions :=
                          update_first (\<lambda>x. sub_id x = sid) (\<lambda>x. s0) (submissions db)\<rparr>"
    have "commit_or_rollback env s0 (apply_decision db0 fs env s0 rv) = (Inr (s, db'), fs')"
      using assms found Some by (simp add: review_transaction_def s0_def db0_def)
    from commit_or_rollback_cases [OF this]
    have "s = s0" "fst (apply_decision db0 fs env s0 rv) = Some db'"
      "fs' = snd (apply_decision db0 fs env s0 rv)" "\<not> commit_raises env"
      by auto
    then have "apply_decision db0 fs env s rv = (Some db', fs')"
      by (metis prod.collapse)
    then show ?thesis
      using found \<open>s = s0\<close> \<open>\<not> commit_raises env\<close> s0_def db0_def by auto
  qed
qed


text \<open>The database after a request is the one its transaction committed, if it committed.\<close>

lemma review_submission_database:
  "fst (snd (review_submission db fs env sid rv)) =
     (case fst (review_transaction db fs env sid rv) of Inl e \<Rightarrow> db | Inr (s, db') \<Rightarrow> db')"
  by (cases "review_transaction db fs env sid rv")
     (auto simp add: review_submission_def split: sum.splits prod.splits)









section \<open>Facts about the lifecycle\<close>

lemma update_first_all:
  assumes "\<forall>x \<in> set xs. P x" and "\<And>x. P x \<Longrightarrow> P (f x)"
  shows "\<forall>x \<in> set (update_first p f xs). P x"
  using assms by (induction xs) auto

lemma approve_steps_documents:
  assumes "approve_steps db fs env s rv = (Some db', fs')"
  shows "documents db' = update_first (\<lambda>d. doc_id d = sub_document_id s)
           (\<lambda>d. d\<lparr>doc_status := ''approved'', is_locked := True\<rparr>) (documents db)"
  using assms unfolding approve_steps_def Let_def
  by (auto split: if_splits option.splits)

lemma apply_decision_consistent:
  assumes "apply_decision db fs env s rv = (Some db', fs')"
    and "\<forall>d \<in> set (documents db). lock_consistent d"
  shows "\<forall>d \<in> set (documents db'). lock_consistent d"
proof (cases "rv_status rv = ''approved''")
  case True
  then have "approve_steps db fs env s rv = (Some db', fs')"
    using assms(1) by (simp add: apply_decision_def)
  then have "documents db' = update_first (\<lambda>d. doc_id d = sub_document_id s)
           (\<lambda>d. d\<lparr>doc_status := ''approved'', is_locked := True\<rparr>) (documents db)"
    by (rule approve_steps_documents)
  moreover have "\<forall>x \<in> set (update_first (\<lambda>d. doc_id d = sub_document_id s)
           (\<lambda>d. d\<lparr>doc_status := ''approved'', is_locked := True\<rparr>) (documents db)). lock_consistent x"
    by (rule update_first_all [OF assms(2)]) (simp add: lock_consistent_def)
  ultimately show ?thesis by simp
next
  case False
  note na = False
  show ?thesis
  proof (cases "rv_status rv = ''rejected''")
    case True
    then have "documents db' = update_first (\<lambda>d. doc_id d = sub_document_id s)
           (\<lambda>d. d\<lparr>doc_status := ''draft'', is_locked := False\<rparr>) (documents db)"
      using assms(1) na by (auto simp add: apply_decision_def)
    moreover have "\<forall>x \<in> set (update_first (\<lambda>d. doc_id d = sub_document_id s)
           (\<lambda>d. d\<lparr>doc_status := ''draft'', is_locked := False\<rparr>) (documents db)). lock_consistent x"
      by (rule update_first_all [OF assms(2)]) (simp add: lock_consistent_def)
    ultimately show ?thesis by simp
  next
    case False
    then have "db' = db" using assms(1) na by (simp add: apply_decision_def)
    then show ?thesis using assms(2) by simp
  qed
qed

lemma review_submission_consistent:
  assumes "\<forall>d \<in> set (documents db). lock_consistent d"
  shows "\<forall>d \<in> set (documents (fst (snd (review_submission db fs env sid rv)))). lock_consistent d"
proof (cases "review_transaction db fs env sid rv")
  case (Pair res fs')
  show ?thesis
  proof (cases res)
    case (Inl e)
    then show ?thesis using Pair assms by (simp add: review_submission_database)
  next
    case (Inr sd)
    obtain s db' where sd: "sd = (s, db')" by (cases sd) auto
    from review_transaction_committed [OF Pair [unfolded Inr sd]]
    have ap: "apply_decision
           (db\<lparr>submissions := update_first (\<lambda>x. sub_id x = sid) (\<lambda>x. s) (submissions db)\<rparr>)
           fs env s rv = (Some db', fs')"
      by blast
    have "\<forall>d \<in> set (documents db'). lock_consistent d"
      by (rule apply_decision_consistent [OF ap]) (simp add: assms)
    then show ?thesis using Pair Inr sd by (simp add: review_submission_database)
  qed
qed

lemma on_document_consistent:
  assumes "\<forall>d \<in> set (documents db). lock_consistent d"
    and "\<And>d d'. tr d = Inr d' \<Longrightarrow> lock_consistent d'"
  shows "\<forall>d \<in> set (documents (on_document i tr db)). lock_consistent d"
proof -
  have "\<forall>x \<in> set (update_first (\<lambda>d. doc_id d = i)
          (\<lambda>d. case tr d of Inl e \<Rightarrow> d | Inr d' \<Rightarrow> d') (documents db)). lock_consistent x"
    by (rule update_first_all [OF assms(1)]) (auto split: sum.splits dest: assms(2))
  then show ?thesis by (simp add: on_document_def)
qed

lemma lifecycle_step_consistent:
  assumes "\<forall>d \<in> set (documents (fst st)). lock_consistent d"
  shows "\<forall>d \<in> set (documents (fst (lifecycle_step st ev))). lock_consistent d"
proof -
  obtain db fs where st: "st = (db, fs)" by (cases st) auto
  have c: "\<forall>d \<in> set (documents db). lock_consistent d" using assms st by simp
  show ?thesis
  proof (cases ev)
    case (Upload new_id path)
    then show ?thesis using c st by (simp add: upload_document_def lock_consistent_def)
  next
    case (Unlock i force)
    have "\<forall>d \<in> set (documents (on_document i (unlock_document force) db)). lock_consistent d"
      by (rule on_document_consistent [OF c])
         (auto simp add: unlock_document_def lock_consistent_def split: if_splits)
    then show ?thesis using Unlock st by simp
  next
    case (Lock i)
    have "\<forall>d \<in> set (documents (on_document i lock_document db)). lock_consistent d"
      by (rule on_document_consistent [OF c])
         (auto simp add: lock_document_def lock_consistent_def split: if_splits)
    then show ?thesis using Lock st by simp
  next
    case (Submit i gaps new_id xml json)
    have "\<forall>d \<in> set (documents (on_document i (submit_document gaps) db)). lock_consistent d"
      by (rule on_document_consistent [OF c])
         (auto simp add: submit_document_def lock_consistent_def split: if_splits)
    then show ?thesis using Submit st c
      by (simp add: add_submission_def split: option.splits sum.splits)
  next
    case (Review sid review env)
    then show ?thesis using st review_submission_consistent [OF c] by simp
  next
    case (Reset i)
    have "\<forall>d \<in> set (documents (on_document i (\<lambda>d. Inr (reset_document d)) db)). lock_consistent d"
      by (rule on_document_consistent [OF c])
         (auto simp add: reset_document_def lock_consistent_def)
    then show ?thesis using Reset st by simp
  qed
qed

lemma foldl_lifecycle_consistent:
  "\<forall>d \<in> set (documents (fst st)). lock_consistent d \<Longrightarrow>
   \<forall>d \<in> set (documents (fst (foldl lifecycle_step st evs))). lock_consistent d"
proof (induction evs arbitrary: st)
  case Nil
  then show ?case by simp
next
  case (Cons ev evs)
  have "\<forall>d \<in> set (documents (fst (lifecycle_step st ev))). lock_consistent d"
    using Cons.prems by (rule lifecycle_step_consistent)
  then show ?case using Cons.IH by simp
qed

text \<open>
  Claim C5. In every state the lifecycle reaches from the empty database, every document
  with status approved is locked and every document with status draft is unlocked.
\<close>

theorem lifecycle_lock_consistent:
  "\<forall>d \<in> set (documents (fst (run_lifecycle evs))).
     (doc_status d = ''approved'' \<longrightarrow> is_locked d) \<and> (doc_status d = ''draft'' \<longrightarrow> \<not> is_locked d)"
proof -
  have "\<forall>d \<in> set (documents (fst (empty_database, Map.empty :: filesystem))). lock_consistent d"
    by (simp add: empty_database_def)
  then have "\<forall>d \<in> set (documents (fst (run_lifecycle evs))). lock_consistent d"
    unfolding run_lifecycle_def by (rule foldl_lifecycle_consistent)
  then show ?thesis by (simp add: lock_consistent_def)
qed


text \<open>
  When the refresh does not raise, the approvals counted are the requests that answer
  with the approved submission; a refresh that raises turns the answer of a committed
  request into a 500.
\<close>

lemma is_approval_of_answer:
  assumes "\<not> refresh_raises (call_env c)"
  shows "is_approval_of D st c =
           (case fst (serve st c) of
              Inl e \<Rightarrow> False
            | Inr s \<Rightarrow> sub_document_id s = D \<and> rv_status (call_review c) = ''approved'')"
  using assms
  by (cases "review_transaction (fst st) (snd st) (call_env c) (call_submission_id c) (call_review c)")
     (auto simp add: is_approval_of_def serve_def review_submission_def split: sum.splits)

lemma refresh_failure_answer:
  assumes "refresh_raises (call_env c)" and "is_approval_of D st c"
  shows "fst (serve st c) = Inl server_error"
  using assms
  by (cases "review_transaction (fst st) (snd st) (call_env c) (call_submission_id c) (call_review c)")
     (auto simp add: is_approval_of_def serve_def review_submission_def split: sum.splits)


text \<open>The two lives end approved and locked, and draft and unlocked.\<close>

theorem lifecycle_lock_consistent_witness:
  "map doc_status (documents (fst (run_lifecycle approved_life))) = [''approved''] \<and>
   map is_locked (documents (fst (run_lifecycle approved_life))) = [True] \<and>
   map doc_status (documents (fst (run_lifecycle rejected_life))) = [''draft''] \<and>
   map is_locked (documents (fst (run_lifecycle rejected_life))) = [False]"
proof -
  have a: "map doc_status (documents (fst (run_lifecycle approved_life))) = [''approved'']"
    by code_simp
  have r: "map doc_status (documents (fst (run_lifecycle rejected_life))) = [''draft'']"
    by code_simp
  from a obtain d where d: "documents (fst (run_lifecycle approved_life)) = [d]"
    "doc_status d = ''approved''"
    by auto
  from r obtain d' where d': "documents (fst (run_lifecycle rejected_life)) = [d']"
    "doc_status d' = ''draft''"
    by auto
  have "is_locked d"
    using lifecycle_lock_consistent [of approved_life] d by simp
  moreover have "\<not> is_locked d'"
    using lifecycle_lock_consistent [of rejected_life] d' by simp
  ultimately show ?thesis
    using d d' by simp
qed

lemma artifact_paths_differ: "artifact_path sec ''.xml'' \<noteq> artifact_path sec ''.json''"
  by (simp add: artifact_path_def)

lemma update_first_member:
  assumes "query_first p xs = Some y"
  shows "f y \<in> set (update_first p f xs)"
  using assms unfolding query_first_def by (induction xs) (auto split: if_splits)

lemma upsert_has_row:
  assumes "\<And>old. ex = Some old \<Longrightarrow> query_first (\<lambda>r. document_id r = D) rs = Some old"
  shows "\<exists>r \<in> set (upsert_approved rs ex D sec xp jp rv now).
           document_id r = D \<and> xml_file_path r = xp \<and> json_file_path r = jp"
proof (cases ex)
  case None
  then show ?thesis by (simp add: upsert_approved_def)
next
  case (Some old)
  let ?f = "\<lambda>r. r\<lparr>section_id := sec, version := version r + 1, xml_file_path := xp,
                    json_file_path := jp, approved_by := rv_reviewed_by rv, approved_at := now,
                    approval_notes := rv_review_notes rv\<rparr>"
  have q: "query_first (\<lambda>r. document_id r = D) rs = Some old"
    using assms Some by simp
  then have "document_id old = D"
    unfolding query_first_def by (auto simp add: find_Some_iff)
  moreover have "?f old \<in> set (update_first (\<lambda>r. document_id r = D) ?f rs)"
    using q by (rule update_first_member)
  ultimately have "?f old \<in> set (upsert_approved rs ex D sec xp jp rv now) \<and>
      document_id (?f old) = D \<and> xml_file_path (?f old) = xp \<and> json_file_path (?f old) = jp"
    using Some by (simp add: upsert_approved_def)
  then show ?thesis by blast
qed

lemma write_file_written:
  assumes "fst (write_file env fs p content)"
  shows "snd (write_file env fs p content) = fs(p \<mapsto> content)"
  using assms by (simp add: write_file_def split: write_outcome.splits)

lemma approve_steps_files:
  assumes "approve_steps db fs env s rv = (Some db', fs')"
  shows "\<exists>r \<in> set (approved_documents db').
           document_id r = sub_document_id s \<and>
           fs' (xml_file_path r) = Some (document_xml s) \<and>
           (\<exists>final. final_structured_data env s = Some final \<and>
                     fs' (json_file_path r) = Some (json_dump env final))"
proof -
  define D where "D = sub_document_id s"
  define sec where "sec = make_section_id D (utcnow env)"
  define ex where "ex = query_first (\<lambda>r. document_id r = D) (approved_documents db)"
  define fs1 where "fs1 = cleanup_old_files env fs ex"
  define xw where "xw = write_file env fs1 (artifact_path sec ''.xml'') (document_xml s)"
  obtain final where final: "final_structured_data env s = Some final"
    using assms unfolding approve_steps_def Let_def
    by (auto split: if_splits option.splits)
  define jw where "jw = write_file env (snd xw) (artifact_path sec ''.json'') (json_dump env final)"
  have steps: "fst xw" "fst jw" "fs' = snd jw"
    and db': "approved_documents db' =
          upsert_approved (approved_documents db) ex D sec (artifact_path sec ''.xml'')
            (artifact_path sec ''.json'') rv (utcnow env)"
    using assms final
    unfolding approve_steps_def Let_def D_def sec_def ex_def fs1_def xw_def jw_def
    by (auto split: if_splits)
  have fs2: "snd xw = fs1(artifact_path sec ''.xml'' \<mapsto> document_xml s)"
    using steps(1) unfolding xw_def by (rule write_file_written)
  have fs': "fs' = (snd xw)(artifact_path sec ''.json'' \<mapsto> json_dump env final)"
    using steps(2) unfolding steps(3) jw_def by (rule write_file_written)
  have "\<exists>r \<in> set (upsert_approved (approved_documents db) ex D sec (artifact_path sec ''.xml'')
            (artifact_path sec ''.json'') rv (utcnow env)).
           document_id r = D \<and> xml_file_path r = artifact_path sec ''.xml'' \<and>
           json_file_path r = artifact_path sec ''.json''"
    by (rule upsert_has_row) (simp add: ex_def)
  then obtain r where r: "r \<in> set (approved_documents db')" "document_id r = D"
    "xml_file_path r = artifact_path sec ''.xml''" "json_file_path r = artifact_path sec ''.json''"
    unfolding db' by blast
  have "fs' (xml_file_path r) = Some (document_xml s)"
    using artifact_paths_differ [of sec] by (simp add: fs' fs2 r(3))
  moreover have "fs' (json_file_path r) = Some (json_dump env final)"
    by (simp add: fs' r(4))
  ultimately show ?thesis using r(1,2) D_def final by blast
qed

text \<open>
  Claim C2, as amended. The database side of a review is all or nothing up to the
  commit: a request that fails leaves the committed database exactly as it was, unless
  it is the refresh after the commit that failed, in which case the database is the
  one the request committed. A request that succeeds with status approved leaves a row
  for the document that names an XML file holding the XML of the submission and a JSON
  file holding what \<open>json.dump\<close> writes for the structured data that was approved.
  Nothing is promised about the files removed or written before a failure.
\<close>

theorem review_database_atomic:
  assumes "review_submission db fs env sid rv = (res, db', fs')"
  shows "(\<forall>e. res = Inl e \<longrightarrow>
            db' = db \<or>
            (refresh_raises env \<and>
             (\<exists>s. fst (review_transaction db fs env sid rv) = Inr (s, db')))) \<and>
         (\<forall>s. res = Inr s \<and> rv_status rv = ''approved'' \<longrightarrow>
            (\<exists>r \<in> set (approved_documents db').
               document_id r = sub_document_id s \<and>
               fs' (xml_file_path r) = Some (document_xml s) \<and>
               (\<exists>final. final_structured_data env s = Some final \<and>
                         fs' (json_file_path r) = Some (json_dump env final))))"
proof (cases "review_transaction db fs env sid rv")
  case (Pair tres tfs)
  show ?thesis
  proof (cases tres)
    case (Inl e)
    then have "res = Inl e" "db' = db"
      using assms Pair by (simp_all add: review_submission_def)
    then show ?thesis by simp
  next
    case (Inr sd)
    obtain s0 dbc where sd: "sd = (s0, dbc)" by (cases sd) auto
    have tr: "review_transaction db fs env sid rv = (Inr (s0, dbc), tfs)"
      using Pair Inr sd by simp
    have out: "db' = dbc" "fs' = tfs" "res = (if refresh_raises env then Inl server_error else Inr s0)"
      using assms tr by (auto simp add: review_submission_def split: if_splits)
    have failed: "db' = db \<or>
            (refresh_raises env \<and>
             (\<exists>s. fst (review_transaction db fs env sid rv) = Inr (s, db')))"
      if "res = Inl e" for e
    proof -
      have "refresh_raises env" using that out(3) by (auto split: if_splits)
      then show ?thesis using tr out(1) by simp
    qed
    have succeeded: "\<exists>r \<in> set (approved_documents db').
               document_id r = sub_document_id s \<and>
               fs' (xml_file_path r) = Some (document_xml s) \<and>
               (\<exists>final. final_structured_data env s = Some final \<and>
                         fs' (json_file_path r) = Some (json_dump env final))"
      if "res = Inr s" "rv_status rv = ''approved''" for s
    proof -
      have "s = s0" using that(1) out(3) by (auto split: if_splits)
      from review_transaction_committed [OF tr]
      have "apply_decision
              (db\<lparr>submissions := update_first (\<lambda>x. sub_id x = sid) (\<lambda>x. s0) (submissions db)\<rparr>)
              fs env s0 rv = (Some dbc, tfs)"
        by blast
      then have "approve_steps
              (db\<lparr>submissions := update_first (\<lambda>x. sub_id x = sid) (\<lambda>x. s0) (submissions db)\<rparr>)
              fs env s0 rv = (Some dbc, tfs)"
        using that(2) by (simp add: apply_decision_def)
      from approve_steps_files [OF this] show ?thesis
        unfolding out(1,2) \<open>s = s0\<close> .
    qed
    show ?thesis using failed succeeded by blast
  qed
qed

text \<open>
  The first approval of document 3: it succeeds, and the new row points at the two files
  that now hold the XML of the submission and the written structured data. The same
  request with a failing commit changes no row.
\<close>

theorem review_database_atomic_witness:
  "(\<exists>s. fst (serve (demo_db, Map.empty) (demo_call ''approved'' (calm_env ''20251125003620''))) = Inr s) \<and>
   (\<exists>r \<in> set (approved_documents (fst (snd (serve (demo_db, Map.empty)
            (demo_call ''approved'' (calm_env ''20251125003620'')))))).
       document_id r = 3 \<and>
       snd (snd (serve (demo_db, Map.empty) (demo_call ''approved'' (calm_env ''20251125003620''))))
         (xml_file_path r) = Some ''<document/>'' \<and>
       snd (snd (serve (demo_db, Map.empty) (demo_call ''approved'' (calm_env ''20251125003620''))))
         (json_file_path r) = Some ''{tables: []}'') \<and>
   fst (serve (demo_db, Map.empty)
          (demo_call ''approved'' ((calm_env ''20251125010000'')\<lparr>commit_raises := True\<rparr>))) =
     Inl server_error \<and>
   fst (snd (serve (demo_db, Map.empty)
          (demo_call ''approved'' ((calm_env ''20251125010000'')\<lparr>commit_raises := True\<rparr>)))) =
     demo_db"
proof -
  let ?env = "calm_env ''20251125003620''"
  let ?env2 = "(calm_env ''20251125010000'')\<lparr>commit_raises := True\<rparr>"
  let ?ok = "demo_call ''approved'' ?env"
  let ?bad = "demo_call ''approved'' ?env2"
  obtain res db' fs' where ok: "serve (demo_db, Map.empty) ?ok = (res, db', fs')"
    by (cases "serve (demo_db, Map.empty) ?ok") auto
  obtain res2 db2 fs2 where bad: "serve (demo_db, Map.empty) ?bad = (res2, db2, fs2)"
    by (cases "serve (demo_db, Map.empty) ?bad") auto
  have r1: "review_submission demo_db Map.empty ?env 1 (demo_review ''approved'') = (res, db', fs')"
    using ok by (simp add: serve_def demo_call_def)
  have r2: "review_submission demo_db Map.empty ?env2 1 (demo_review ''approved'') = (res2, db2, fs2)"
    using bad by (simp add: serve_def demo_call_def)
  have "case fst (serve (demo_db, Map.empty) ?ok) of
          Inl e \<Rightarrow> False
        | Inr s \<Rightarrow> sub_document_id s = 3 \<and> document_xml s = ''<document/>'' \<and>
                   final_structured_data ?env s = Some docx_data"
    by code_simp
  then obtain s where s: "res = Inr s" "sub_document_id s = 3" "document_xml s = ''<document/>''"
    "final_structured_data ?env s = Some docx_data"
    using ok by (cases res) auto
  have st: "rv_status (demo_review ''approved'') = ''approved''"
    by (simp add: demo_review_def)
  have dump: "json_dump ?env docx_data = ''{tables: []}''"
    by (simp add: calm_env_def)
  have v2: "fst (serve (demo_db, Map.empty) ?bad) = Inl server_error"
    by code_simp
  then have e2: "res2 = Inl server_error" using bad by simp
  have nr: "\<not> refresh_raises ?env2"
    by (simp add: calm_env_def)
  from review_database_atomic [OF r1] s st dump
  have a: "\<exists>r \<in> set (approved_documents db'). document_id r = 3 \<and>
             fs' (xml_file_path r) = Some ''<document/>'' \<and>
             fs' (json_file_path r) = Some ''{tables: []}''"
    by auto
  from review_database_atomic [OF r2] e2 nr
  have b: "db2 = demo_db" by simp
  show ?thesis
    using a b s(1) e2 unfolding ok bad by simp
qed

text \<open>
  Claim C2 as stated fails. Document 3 is approved once; during the second approval
  the JSON artifact cannot be written. The request fails and the database is rolled back
  to the first approval, whose row still names the first pair of files: both have been
  deleted, the XML file of the failed approval stays on disk and so does the JSON file
  that was being written. And a first approval whose refresh fails after the commit
  answers 500 although the document is approved and its row exists.
\<close>

theorem approval_not_atomic_counterexample:
  "(let st1 = run_reviews (demo_db, Map.empty) [demo_call ''approved'' (calm_env ''20251125003620'')];
        r = serve st1 json_write_fails;
        q = serve (demo_db, Map.empty)
              (demo_call ''approved'' ((calm_env ''20251125030000'')\<lparr>refresh_raises := True\<rparr>))
    in fst r = Inl server_error \<and>
       fst (snd r) = fst st1 \<and>
       map xml_file_path (approved_documents (fst (snd r))) = [''approved/DOC-3-20251125003620.xml''] \<and>
       map json_file_path (approved_documents (fst (snd r))) = [''approved/DOC-3-20251125003620.json''] \<and>
       snd st1 ''approved/DOC-3-20251125003620.xml'' = Some ''<document/>'' \<and>
       snd st1 ''approved/DOC-3-20251125003620.json'' = Some ''{tables: []}'' \<and>
       snd (snd r) ''approved/DOC-3-20251125003620.xml'' = None \<and>
       snd (snd r) ''approved/DOC-3-20251125003620.json'' = None \<and>
       snd (snd r) ''approved/DOC-3-20251126101500.xml'' = Some ''<document/>'' \<and>
       snd (snd r) ''approved/DOC-3-20251126101500.json'' = Some ''{'' \<and>
       fst q = Inl server_error \<and>
       map doc_status (documents (fst (snd q))) = [''approved''] \<and>
       map version (approved_documents (fst (snd q))) = [1] \<and>
       approved_documents demo_db = [])"
  by code_simp

section \<open>Facts about the reconciliation\<close>

lemma zip_upt_Cons:
  "zip [k ..< k + length (y # ys)] (y # ys) = (k, y) # zip [Suc k ..< Suc k + length ys] ys"
proof -
  have "[k ..< k + length (y # ys)] = k # [Suc k ..< Suc k + length ys]"
    by (simp add: upt_rec)
  then show ?thesis by (simp only: zip_Cons_Cons)
qed

lemma forEach_beyond:
  "length zs \<le> k \<Longrightarrow>
   foldl (\<lambda>acc (i, y). if i < length acc then acc[i := f (acc ! i) y] else acc)
     zs (zip [k ..< k + length ys] ys) = zs"
proof (induction ys arbitrary: k)
  case Nil
  then show ?case by simp
next
  case (Cons y ys)
  have "length zs \<le> Suc k" using Cons.prems by simp
  from Cons.IH [OF this] show ?case
    using Cons.prems by (simp only: zip_upt_Cons) simp
qed

lemma forEach_from:
  "foldl (\<lambda>acc (i, y). if i < length acc then acc[i := f (acc ! i) y] else acc)
     (pre @ xs) (zip [length pre ..< length pre + length ys] ys) = pre @ zipUpdate f xs ys"
proof (induction ys arbitrary: pre xs)
  case Nil
  then show ?case by (cases xs) simp_all
next
  case (Cons y ys)
  show ?case
  proof (cases xs)
    case Nil
    have "foldl (\<lambda>acc (i, y). if i < length acc then acc[i := f (acc ! i) y] else acc)
            pre (zip [length pre ..< length pre + length (y # ys)] (y # ys)) = pre"
      by (rule forEach_beyond) simp
    then show ?thesis using Nil by simp
  next
    case (Cons x xs')
    have "foldl (\<lambda>acc (i, y). if i < length acc then acc[i := f (acc ! i) y] else acc)
            ((pre @ [f x y]) @ xs')
            (zip [length (pre @ [f x y]) ..< length (pre @ [f x y]) + length ys] ys) =
          (pre @ [f x y]) @ zipUpdate f xs' ys"
      by (rule Cons.IH)
    then show ?thesis
      using Cons by (simp only: zip_upt_Cons) simp
  qed
qed

lemma forEach_indexed_zipUpdate: "forEach_indexed f xs ys = zipUpdate f xs ys"
  using forEach_from [of f "[]" xs ys] by (simp add: forEach_indexed_def)

lemma length_zipUpdate: "length (zipUpdate f xs ys) = length xs"
  by (induction f xs ys rule: zipUpdate.induct) simp_all

lemma map_zipUpdate_invariant:
  assumes "\<And>x y. g (f x y) = g x"
  shows "map g (zipUpdate f xs ys) = map g xs"
  using assms by (induction f xs ys rule: zipUpdate.induct) simp_all

lemma nth_zipUpdate:
  "i < length xs \<Longrightarrow>
   zipUpdate f xs ys ! i = (if i < length ys then f (xs ! i) (ys ! i) else xs ! i)"
proof (induction f xs ys arbitrary: i rule: zipUpdate.induct)
  case (1 f ys)
  then show ?case by simp
next
  case (2 f x xs)
  then show ?case by simp
next
  case (3 f x xs y ys)
  then show ?case by (cases i) simp_all
qed

text \<open>The table-level fields that a save never touches.\<close>

lemma updateTable_frame:
  "table_id (updateTable t h) = table_id t \<and> table_name (updateTable t h) = table_name t \<and>
   column_headers (updateTable t h) = column_headers t"
  by (simp add: updateTable_def Let_def split: option.splits)

lemma reconcile_tables:
  "tables (reconcile s v) =
     zipUpdate updateTable (tables s) (map snd (querySelectorAll (has_tag [''TABLE'']) v))"
  by (simp add: reconcile_def Let_def forEach_indexed_zipUpdate)

lemma reconcile_frame:
  "map (\<lambda>t. (table_id t, table_name t, column_headers t)) (tables (reconcile s v)) =
   map (\<lambda>t. (table_id t, table_name t, column_headers t)) (tables s)"
  unfolding reconcile_tables
  by (rule map_zipUpdate_invariant) (simp add: updateTable_frame)

text \<open>
  Claim C3. Whatever the edited views contain, after any sequence of saves the
  structure has the same tables in the same order, and each table has the
  \<open>column_headers\<close>, \<open>id\<close> and \<open>name\<close> it had before.
\<close>

theorem headers_preserved:
  "map (\<lambda>t. (table_id t, table_name t, column_headers t)) (tables (reconcile_all s views)) =
   map (\<lambda>t. (table_id t, table_name t, column_headers t)) (tables s)"
proof (induction views arbitrary: s)
  case Nil
  then show ?case by (simp add: reconcile_all_def)
next
  case (Cons v views)
  have "map (\<lambda>t. (table_id t, table_name t, column_headers t))
          (tables (reconcile_all (reconcile s v) views)) =
        map (\<lambda>t. (table_id t, table_name t, column_headers t)) (tables (reconcile s v))"
    by (rule Cons.IH)
  then show ?case
    by (simp add: reconcile_all_def reconcile_frame)
qed

text \<open>The header row of the view is edited; the table keeps its headers, id and name.\<close>

theorem headers_preserved_witness:
  "cell_text (cellAt (reconcile_all materials_structure [edited_view]) 0 0 0) = ''BG_ATN'' \<and>
   map (\<lambda>t. (table_id t, table_name t, column_headers t))
     (tables (reconcile_all materials_structure [edited_view])) =
   [(''table_0'', ''Materials'', Some [''Name'', ''Catalog #''])]"
proof -
  have a: "cell_text (cellAt (reconcile_all materials_structure [edited_view]) 0 0 0) = ''BG_ATN''"
    by code_simp
  have b: "map (\<lambda>t. (table_id t, table_name t, column_headers t)) (tables materials_structure) =
           [(''table_0'', ''Materials'', Some [''Name'', ''Catalog #''])]"
    by (simp add: materials_structure_def materials_table_def)
  show ?thesis
    using a b headers_preserved [of materials_structure "[edited_view]"] by simp
qed

lemma rows_updateTable:
  "rows (updateTable t h) =
     zipUpdate updateRow (rows t) (map snd (querySelectorAll (has_tag [''TR'']) h))"
  by (simp add: updateTable_def Let_def forEach_indexed_zipUpdate split: option.splits)

lemma cells_updateRow:
  "cells (updateRow r h) =
     zipUpdate updateCell (cells r) (map snd (querySelectorAll (has_tag [''TD'', ''TH'']) h))"
  by (simp add: updateRow_def Let_def forEach_indexed_zipUpdate)

lemma cell_text_updateCell: "cell_text (updateCell c h) = newTextOf h"
  by (simp add: updateCell_def Let_def)

lemma reconcile_cell_text:
  assumes "ti < length (tables s)" and "r < length (rows (tables s ! ti))"
    and "c < length (cells (rows (tables s ! ti) ! r))"
  shows "cell_text (cellAt (reconcile s v) ti r c) =
           (if c < length (htmlCellsAt v ti r) then newTextOf (htmlCellsAt v ti r ! c)
            else cell_text (cellAt s ti r c))"
proof -
  let ?hts = "map snd (querySelectorAll (has_tag [''TABLE'']) v)"
  have t: "tables (reconcile s v) ! ti =
             (if ti < length ?hts then updateTable (tables s ! ti) (?hts ! ti) else tables s ! ti)"
    unfolding reconcile_tables using assms(1) by (rule nth_zipUpdate)
  show ?thesis
  proof (cases "ti < length ?hts")
    case False
    then show ?thesis using t by (simp add: cellAt_def htmlCellsAt_def)
  next
    case True
    let ?hrs = "map snd (querySelectorAll (has_tag [''TR'']) (?hts ! ti))"
    have r: "rows (tables (reconcile s v) ! ti) ! r =
               (if r < length ?hrs then updateRow (rows (tables s ! ti) ! r) (?hrs ! r)
                else rows (tables s ! ti) ! r)"
      using True t assms(2) by (simp add: rows_updateTable nth_zipUpdate)
    show ?thesis
    proof (cases "r < length ?hrs")
      case False
      then show ?thesis using r True by (simp add: cellAt_def htmlCellsAt_def)
    next
      case rt: True
      let ?hcs = "map snd (querySelectorAll (has_tag [''TD'', ''TH'']) (?hrs ! r))"
      have h: "htmlCellsAt v ti r = ?hcs"
        using True rt by (simp add: htmlCellsAt_def Let_def)
      have "cells (rows (tables (reconcile s v) ! ti) ! r) ! c =
              (if c < length ?hcs then updateCell (cells (rows (tables s ! ti) ! r) ! c) (?hcs ! c)
               else cells (rows (tables s ! ti) ! r) ! c)"
        using r rt assms(3) by (simp add: cells_updateRow nth_zipUpdate)
      then show ?thesis
        unfolding h by (simp add: cellAt_def cell_text_updateCell)
    qed
  qed
qed

lemma renderRows_nth:
  assumes "r < length (rows t)"
  shows "renderRows t ! r =
           (if r = 0 then ''header-row'' else '''', map cellClass (cells (rows t ! r)))"
  using assms by (simp add: renderRows_def)

text \<open>
  Claim C6, as amended. Row 0 is only marked as the header row. Its cells get their class
  from the same classification as the cells of every other row, and a save replaces the
  stored text of any cell that has a counterpart in the view, in row 0 as in any other
  row, by the trimmed text of that counterpart; a cell without a counterpart keeps its
  text.
\<close>

theorem header_row_like_any_row:
  assumes "ti < length (tables s)" and "r < length (rows (tables s ! ti))"
    and "c < length (cells (rows (tables s ! ti) ! r))"
  shows "renderRows (tables s ! ti) ! r =
           (if r = 0 then ''header-row'' else '''', map cellClass (cells (rows (tables s ! ti) ! r))) \<and>
         cell_text (cellAt (reconcile s v) ti r c) =
           (if c < length (htmlCellsAt v ti r) then trim (textContent (htmlCellsAt v ti r ! c))
            else cell_text (cellAt s ti r c))"
  using renderRows_nth [OF assms(2)] reconcile_cell_text [OF assms] 
  by (simp add: newTextOf_def)

text \<open>In the materials table the header cell and the pending cell are both overwritten.\<close>

theorem header_row_like_any_row_witness:
  "cell_text (cellAt (reconcile materials_structure edited_view) 0 0 1) = ''Material_CTG#'' \<and>
   cell_text (cellAt (reconcile materials_structure edited_view) 0 1 1) = ''CAT-123'' \<and>
   fst (renderRows (tables materials_structure ! 0) ! 0) = ''header-row''"
proof -
  have l: "(0::nat) < length (tables materials_structure)"
    "(0::nat) < length (rows (tables materials_structure ! 0))"
    "(1::nat) < length (rows (tables materials_structure ! 0))"
    "(1::nat) < length (cells (rows (tables materials_structure ! 0) ! 0))"
    "(1::nat) < length (cells (rows (tables materials_structure ! 0) ! 1))"
    by (simp_all add: materials_structure_def materials_table_def)
  have v: "map textContent (htmlCellsAt edited_view 0 0) = [''BG_ATN'', ''Material_CTG#'']"
    "map textContent (htmlCellsAt edited_view 0 1) = [''Buffer'', '' CAT-123 '']"
    by code_simp+
  have v0: "length (htmlCellsAt edited_view 0 0) = 2" "textContent (htmlCellsAt edited_view 0 0 ! 1) = ''Material_CTG#''"
    using v(1) by (auto simp add: map_eq_Cons_conv)
  have v1: "length (htmlCellsAt edited_view 0 1) = 2" "textContent (htmlCellsAt edited_view 0 1 ! 1) = '' CAT-123 ''"
    using v(2) by (auto simp add: map_eq_Cons_conv)
  have t: "trim ''Material_CTG#'' = ''Material_CTG#''" "trim '' CAT-123 '' = ''CAT-123''"
    by code_simp+
  from header_row_like_any_row [OF l(1) l(2) l(4), of edited_view] v0 t
  have a: "cell_text (cellAt (reconcile materials_structure edited_view) 0 0 1) = ''Material_CTG#''"
    "fst (renderRows (tables materials_structure ! 0) ! 0) = ''header-row''"
    by simp_all
  from header_row_like_any_row [OF l(1) l(3) l(5), of edited_view] v1 t
  have b: "cell_text (cellAt (reconcile materials_structure edited_view) 0 1 1) = ''CAT-123''"
    by simp
  show ?thesis using a b by simp
qed

text \<open>
  Claim C6 as stated fails on both counts: the save overwrites the stored text
  \<open>Name\<close> of a row-0 cell with the text \<open>BG_ATN\<close> typed into the header row of the view,
  and the editor gives the blank cell of a header row the gap class.
\<close>

theorem header_row_counterexample:
  "cell_text (cellAt materials_structure 0 0 0) = ''Name'' \<and>
   cell_text (cellAt (reconcile materials_structure edited_view) 0 0 0) = ''BG_ATN'' \<and>
   renderRows blank_header_table ! 0 = (''header-row'', ['''', ''cell-gap''])"
  by code_simp

section \<open>Facts about the projection and the round trip\<close>







subsection \<open>When a save changes nothing\<close>

lemma zipUpdate_id_iff:
  "zipUpdate f xs ys = xs \<longleftrightarrow> list_all (\<lambda>(x, y). f x y = x) (zip xs ys)"
  by (induction f xs ys rule: zipUpdate.induct) simp_all

lemma updateCell_id_iff: "updateCell c h = c \<longleftrightarrow> cell_text c = newTextOf h"
proof
  assume "updateCell c h = c"
  then have "cell_text (updateCell c h) = cell_text c" by simp
  then show "cell_text c = newTextOf h" by (simp add: cell_text_updateCell)
next
  assume "cell_text c = newTextOf h"
  then show "updateCell c h = c" by (simp add: updateCell_def Let_def)
qed

lemma updateParagraph_id_iff: "updateParagraph p h = p \<longleftrightarrow> para_text p = newTextOf h"
proof
  assume "updateParagraph p h = p"
  then have "para_text (updateParagraph p h) = para_text p" by simp
  then show "para_text p = newTextOf h"
    by (simp add: updateParagraph_def Let_def split: if_splits)
next
  assume "para_text p = newTextOf h"
  then show "updateParagraph p h = p" by (simp add: updateParagraph_def Let_def)
qed

lemma updateRow_id_iff: "updateRow r h = r \<longleftrightarrow> rowAligned r h"
proof -
  have "updateRow r h = r \<longleftrightarrow> cells (updateRow r h) = cells r"
  proof
    assume "cells (updateRow r h) = cells r"
    then show "updateRow r h = r"
      by (simp add: updateRow_def Let_def)
  qed simp
  then show ?thesis
    by (simp add: cells_updateRow zipUpdate_id_iff rowAligned_def updateCell_id_iff)
qed

lemma updateTable_id_iff: "updateTable t h = t \<longleftrightarrow> tableAligned t h"
proof -
  have "updateTable t h = t \<longleftrightarrow> rows (updateTable t h) = rows t"
  proof
    assume a: "rows (updateTable t h) = rows t"
    have "updateTable t h = t\<lparr>rows := rows (updateTable t h)\<rparr>"
      by (cases "column_headers t") (simp_all add: updateTable_def Let_def)
    then show "updateTable t h = t"
      unfolding a by simp
  qed simp
  then show ?thesis
    by (simp add: rows_updateTable zipUpdate_id_iff tableAligned_def updateRow_id_iff)
qed

lemma reconcile_paragraphs:
  "paragraphs (reconcile s v) =
     zipUpdate updateParagraph (paragraphs s) (map snd (querySelectorAll (has_tag [''P'']) v))"
  by (simp add: reconcile_def Let_def forEach_indexed_zipUpdate)

lemma reconcile_id_iff: "reconcile s v = s \<longleftrightarrow> aligned s v"
proof -
  have "reconcile s v = s \<longleftrightarrow>
        tables (reconcile s v) = tables s \<and> paragraphs (reconcile s v) = paragraphs s"
  proof
    assume a: "tables (reconcile s v) = tables s \<and> paragraphs (reconcile s v) = paragraphs s"
    have "reconcile s v = s\<lparr>tables := tables (reconcile s v), paragraphs := paragraphs (reconcile s v)\<rparr>"
      by (simp add: reconcile_def Let_def)
    then show "reconcile s v = s"
      using a by simp
  qed simp
  then show ?thesis
    by (simp add: reconcile_tables reconcile_paragraphs zipUpdate_id_iff aligned_def
        updateTable_id_iff updateParagraph_id_iff)
qed

lemma trim_idem: "trim (trim s) = trim s"
proof (cases "dropWhile is_space s")
  case Nil
  then have "trim s = []" by (simp only: trim_def) simp
  then show ?thesis by (simp add: trim_Nil)
next
  case (Cons x u)
  have x: "\<not> is_space x"
    using Cons hd_dropWhile [of is_space s] by auto
  have "dropWhile is_space (rev u @ x # []) = dropWhile is_space (rev u) @ x # []"
    using x by (rule dropWhile_append3)
  then have w: "trim s = x # rev (dropWhile is_space (rev u))"
    using Cons by (simp add: trim_def)
  have d: "dropWhile is_space (x # rev (dropWhile is_space (rev u))) =
           x # rev (dropWhile is_space (rev u))"
    using x by simp
  have "dropWhile is_space (dropWhile is_space (rev u) @ [x]) = dropWhile is_space (rev u) @ [x]"
  proof (cases "dropWhile is_space (rev u)")
    case Nil
    show ?thesis unfolding Nil using x by simp
  next
    case (Cons y ys)
    then have "\<not> is_space y"
      using hd_dropWhile [of is_space "rev u"] by auto
    then show ?thesis using Cons by simp
  qed
  then show ?thesis
    unfolding w by (simp add: trim_def x)
qed

text \<open>
  Whatever the view: a save that changes nothing found every stored text that has an
  element in the view already trimmed.
\<close>

lemma unchanged_paragraphs_trimmed:
  assumes "reconcile s v = s"
  shows "list_all (\<lambda>(p, htmlPara). trim (para_text p) = para_text p)
           (zip (paragraphs s) (map snd (querySelectorAll (has_tag [''P'']) v)))"
proof -
  have "list_all (\<lambda>(p, htmlPara). para_text p = newTextOf htmlPara)
          (zip (paragraphs s) (map snd (querySelectorAll (has_tag [''P'']) v)))"
    using assms by (simp add: reconcile_id_iff aligned_def)
  then show ?thesis
    by (auto simp add: list_all_iff newTextOf_def trim_idem)
qed

lemma unchanged_cells_trimmed:
  assumes "reconcile s v = s"
    and "ti < length (tables s)" and "r < length (rows (tables s ! ti))"
    and "c < length (cells (rows (tables s ! ti) ! r))"
    and "c < length (htmlCellsAt v ti r)"
  shows "trim (cell_text (cellAt s ti r c)) = cell_text (cellAt s ti r c)"
proof -
  have "cell_text (cellAt s ti r c) = newTextOf (htmlCellsAt v ti r ! c)"
    using reconcile_cell_text [OF assms(2,3,4), of v] assms(1,5) by simp
  then show ?thesis
    by (simp add: newTextOf_def trim_idem)
qed

subsection \<open>Views that a save cannot tell apart\<close>



subsection \<open>Identity tags\<close>










subsection \<open>Highlight markers\<close>

text \<open>The two character classes of the regular expressions, read off the bits of the character.\<close>

lemma is_word_char_bits [code]:
  "is_word_char (Char b0 b1 b2 b3 b4 b5 b6 b7) =
     (\<not> b7 \<and>
      (if b6
       then ((b0 \<or> b1 \<or> b2 \<or> b3 \<or> b4) \<and> \<not> (b4 \<and> b3 \<and> (b2 \<or> (b1 \<and> b0)))) \<or>
            (\<not> b5 \<and> b4 \<and> b3 \<and> b2 \<and> b1 \<and> b0)
       else b5 \<and> b4 \<and> (\<not> b3 \<or> (\<not> b2 \<and> \<not> b1))))"
  by (cases b0; cases b1; cases b2; cases b3; cases b4; cases b5; cases b6; cases b7;
      simp add: is_word_char_def)

lemma canonicalize_bits [code]:
  "canonicalize (Char b0 b1 b2 b3 b4 b5 b6 b7) =
     (if b6 \<and> b5 \<and> \<not> b7 \<and> (b0 \<or> b1 \<or> b2 \<or> b3 \<or> b4) \<and> \<not> (b4 \<and> b3 \<and> (b2 \<or> (b1 \<and> b0)))
      then Char b0 b1 b2 b3 b4 False b6 b7
      else Char b0 b1 b2 b3 b4 b5 b6 b7)"
  by (cases b0; cases b1; cases b2; cases b3; cases b4; cases b5; cases b6; cases b7;
      simp add: canonicalize_def)






lemma concat_map_concat:
  "concat (map f (concat xss)) = concat (map (\<lambda>xs. concat (map f xs)) xss)"
  by (induction xss) simp_all










subsection \<open>The round trip\<close>




section \<open>Facts about cursor restoration\<close>

lemma byCellPosition_None: "cellPosition saved = None \<Longrightarrow> byCellPosition saved root = None"
  by (simp add: byCellPosition_def)

lemma byEditedText_None: "\<not> truthy_string (editedText saved) \<Longrightarrow> byEditedText saved root = None"
  by (simp add: byEditedText_def)

lemma byOriginalText_None: "saved_textContent saved = [] \<Longrightarrow> byOriginalText saved root = None"
  by (simp add: byOriginalText_def)

lemma byParagraphIndex_None: "paragraphIndex saved = None \<Longrightarrow> byParagraphIndex saved root = None"
  by (simp add: byParagraphIndex_def)

lemma attempts_in_order:
  fixes a b c d e f :: "'a option"
  assumes "\<not> g3 \<Longrightarrow> c = None" and "\<not> g4 \<Longrightarrow> d = None"
    and "\<not> g5 \<Longrightarrow> e = None" and "\<not> g6 \<Longrightarrow> f = None"
  shows "(let t1 = a;
              t2 = (if t1 = None then b else t1);
              t3 = (if t2 = None \<and> g3 then c else t2);
              t4 = (if t3 = None \<and> g4 then d else t3);
              t5 = (if t4 = None \<and> g5 then e else t4);
              t6 = (if t5 = None \<and> g6 then f else t5)
          in t6) = first_found [a, b, c, d, e, f]"
proof (cases a)
  case (Some x)
  then show ?thesis by simp
next
  case a: None
  show ?thesis
  proof (cases b)
    case (Some x)
    then show ?thesis using a by simp
  next
    case b: None
    show ?thesis
    proof (cases c)
      case (Some x)
      then have g3 using assms(1) by auto
      then show ?thesis using a b Some by simp
    next
      case c: None
      show ?thesis
      proof (cases d)
        case (Some x)
        then have g4 using assms(2) by auto
        then show ?thesis using a b c Some by simp
      next
        case d: None
        show ?thesis
        proof (cases e)
          case (Some x)
          then have g5 using assms(3) by auto
          then show ?thesis using a b c d Some by simp
        next
          case e: None
          show ?thesis
          proof (cases f)
            case (Some x)
            then have g6 using assms(4) by auto
            then show ?thesis using a b c d e Some by simp
          next
            case None
            then show ?thesis using a b c d e by simp
          qed
        qed
      qed
    qed
  qed
qed

text \<open>
  Claim C4, as amended. The target is the first success of these attempts, in this
  order: the element with the saved cell id; the element still marked as being edited;
  the cell at the saved table, row and cell index; the first \<open>td\<close>, \<open>th\<close> or \<open>p\<close> whose
  trimmed text matches the edited text (equal, one a prefix of the other, or equal on the
  first 50 characters); the first whose trimmed text matches the text saved before the
  edit in the same prefix sense; the paragraph at the saved paragraph index. When none
  succeeds nothing is found. The result is a function of the selection and the view.
\<close>

theorem locator_order:
  "findTargetElement saved root =
     first_found
       [byCellId saved root, byEditingMark root, byCellPosition saved root,
        byEditedText saved root, byOriginalText saved root, byParagraphIndex saved root]"
  unfolding findTargetElement_def
proof (rule attempts_in_order)
  show "byCellPosition saved root = None" if "\<not> cellPosition saved \<noteq> None"
    using that byCellPosition_None by blast
  show "byEditedText saved root = None" if "\<not> truthy_string (editedText saved)"
    using that by (rule byEditedText_None)
  show "byOriginalText saved root = None" if "\<not> saved_textContent saved \<noteq> []"
    using that byOriginalText_None by blast
  show "byParagraphIndex saved root = None" if "\<not> paragraphIndex saved \<noteq> None"
    using that byParagraphIndex_None by blast
qed

text \<open>
  A selection saved on the second cell is found by its cell id; one that matches nothing
  is not found.
\<close>

theorem locator_order_witness:
  "byCellId cell_selection answers_view = Some [0, 1, 0] \<and>
   findTargetElement cell_selection answers_view = Some [0, 1, 0] \<and>
   findTargetElement lost_selection answers_view = None \<and>
   \<not> restoreCursorPosition (Some lost_selection) answers_view"
proof -
  have a: "byCellId cell_selection answers_view = Some [0, 1, 0]"
    by code_simp
  have b: "first_found
       [byCellId lost_selection answers_view, byEditingMark answers_view,
        byCellPosition lost_selection answers_view, byEditedText lost_selection answers_view,
        byOriginalText lost_selection answers_view, byParagraphIndex lost_selection answers_view] = None"
    by code_simp
  show ?thesis
    using a b locator_order [of cell_selection answers_view]
      locator_order [of lost_selection answers_view]
    by (simp add: restoreCursorPosition_def)
qed

text \<open>
  Claim C4 as stated fails. The user typed \<open>Yes\<close> into the paragraph of the second
  row. The order of the specification restores the cursor to that paragraph by its
  index; the code never reaches the paragraph index, because the edited text already
  matches the cell of the first row.
\<close>

theorem locator_order_counterexample:
  "locate_as_specified paragraph_selection answers_view = Some [0, 1, 0, 0] \<and>
   findTargetElement paragraph_selection answers_view = Some [0, 0, 0] \<and>
   byParagraphIndex paragraph_selection answers_view = Some [0, 1, 0, 0] \<and>
   byEditedText paragraph_selection answers_view = Some [0, 0, 0]"
  by code_simp

end
